theory Spec2Isabelle
  imports Complex_Main "HOL-Library.Log_Nat"
begin

section \<open>Strings\<close>

text \<open>
  A JavaScript string is modelled by \<^typ>\<open>string\<close>, one \<^typ>\<open>char\<close> per UTF-16 code
  unit, for the code units U+0000 to U+00FF (Latin-1). On these code units
  \<^verbatim>\<open>String.prototype.toLowerCase\<close> maps A-Z and the accented capitals U+00C0 to U+00DE
  (the multiplication sign U+00D7 apart) to the code unit 32 above and fixes every other one,
  and the regular expression class \<^verbatim>\<open>\s\<close> (as well as \<^verbatim>\<open>trim\<close>) takes TAB, LF, VT, FF, CR,
  SPACE and NBSP for white space.
\<close>

definition isUpper :: "char \<Rightarrow> bool" where
  "isUpper c = (let n = (of_char c :: nat) in
      (65 \<le> n \<and> n \<le> 90) \<or> (192 \<le> n \<and> n \<le> 222 \<and> n \<noteq> 215))"

definition lowerChar :: "char \<Rightarrow> char" where
  "lowerChar c = (if isUpper c then char_of ((of_char c :: nat) + 32) else c)"

definition toLowerCase :: "string \<Rightarrow> string" where
  "toLowerCase s = map lowerChar s"

definition isSpace :: "char \<Rightarrow> bool" where
  "isSpace c = ((of_char c :: nat) \<in> {9, 10, 11, 12, 13, 32, 160})"

text \<open>\<^verbatim>\<open>s.trim()\<close>: white space removed at both ends.\<close>

definition trim :: "string \<Rightarrow> string" where
  "trim s = rev (dropWhile isSpace (rev (dropWhile isSpace s)))"

text \<open>
  \<^verbatim>\<open>s.split(/\s+/)\<close>: the pieces of \<open>s\<close> between the maximal runs of white space. A run at
  the start or at the end of \<open>s\<close> leaves an empty piece there, and a string with no white
  space is its own single piece (the empty string too).
\<close>

function split_whitespace :: "string \<Rightarrow> string list" where
  "split_whitespace s =
     (case dropWhile (\<lambda>c. \<not> isSpace c) s of
        [] \<Rightarrow> [s]
      | sp # rest \<Rightarrow>
          takeWhile (\<lambda>c. \<not> isSpace c) s # split_whitespace (dropWhile isSpace rest))"
  by pat_completeness auto
termination
proof (relation "measure length")
  fix s :: string and sp rest
  assume "dropWhile (\<lambda>c. \<not> isSpace c) s = sp # rest"
  then have "length (sp # rest) \<le> length s"
    by (metis length_dropWhile_le)
  moreover have "length (dropWhile isSpace rest) \<le> length rest"
    by (rule length_dropWhile_le)
  ultimately show "(dropWhile isSpace rest, s) \<in> measure length"
    by simp
qed simp

declare split_whitespace.simps [simp del]

text \<open>\<^verbatim>\<open>word.replace(/[^a-z]/g, '')\<close>: only the code units a to z stay.\<close>

definition isLowerLatin :: "char \<Rightarrow> bool" where
  "isLowerLatin c = (97 \<le> (of_char c :: nat) \<and> (of_char c :: nat) \<le> 122)"

definition keep_letters :: "string \<Rightarrow> string" where
  "keep_letters w = filter isLowerLatin w"


section \<open>Tokenizer (WordInput.tsx, processWords)\<close>

text \<open>
  The constant \<^verbatim>\<open>words\<close> that \<^verbatim>\<open>processWords\<close> computes from the input text, one function
  per method of the chain, in the order of the source:
  \<^verbatim>\<open>
  inputText.toLowerCase().split(/\s+/)
    .filter(word => word.length > 0)
    .map(word => word.replace(/[^a-z]/g, ''))
    .filter(word => word.length > 0)
    .filter(word => word.length >= 2)
  \<close>
\<close>

definition processWords_words :: "string \<Rightarrow> string list" where
  "processWords_words inputText =
     filter (\<lambda>w. length w \<ge> 2)
       (filter (\<lambda>w. length w > 0)
          (map keep_letters
             (filter (\<lambda>w. length w > 0)
                (split_whitespace (toLowerCase inputText)))))"

text \<open>
  The tokenizer as the specification words it: lowercase the text; split on whitespace
  runs; strip every character that is not a lowercase Latin letter from each token; discard
  empty tokens; discard tokens of length 1.
\<close>

definition tokenize_spec :: "string \<Rightarrow> string list" where
  "tokenize_spec t =
     filter (\<lambda>w. length w \<noteq> 1)
       (filter (\<lambda>w. w \<noteq> [])
          (map (filter (\<lambda>c. c \<in> set ''abcdefghijklmnopqrstuvwxyz''))
             (split_whitespace (toLowerCase t))))"


section \<open>Definition fetcher (services/dictionaryApi.ts)\<close>

subsection \<open>Data\<close>

text \<open>
  \<^verbatim>\<open>PronunciationInfo\<close> (and the store's \<^verbatim>\<open>WordPronunciation\<close>, of the same shape): the
  fields \<^verbatim>\<open>text\<close> and \<^verbatim>\<open>audio?\<close>. The definitions of \<^verbatim>\<open>WordDetails\<close> (and the store's
  \<^verbatim>\<open>WordDefinition\<close>): the fields \<^verbatim>\<open>partOfSpeech\<close> and \<^verbatim>\<open>definition\<close>.
\<close>

record WordPronunciation =
  pron_text :: string
  pron_audio :: "string option"

record WordDefinition =
  partOfSpeech :: string
  definition_text :: string

record WordDetails =
  d_pronunciation :: string
  d_pronunciations :: "WordPronunciation list"
  d_definitions :: "WordDefinition list"
  d_examples :: "string list"

text \<open>
  \<^verbatim>\<open>DictionaryApiResponse\<close>, the entry of the lookup service. An optional field is an
  \<^typ>\<open>'a option\<close>. The interface declares \<^verbatim>\<open>phonetics\<close> and \<^verbatim>\<open>meanings\<close> as required, but
  the body is whatever the service sent: \<^verbatim>\<open>fetchWordDetails\<close> tests \<^verbatim>\<open>phonetics\<close> before it
  reads it, and reads \<^verbatim>\<open>meanings\<close> untested, so both are optional here and a missing
  \<^verbatim>\<open>meanings\<close> is the TypeError of \<^verbatim>\<open>undefined.forEach\<close>. The fields \<^verbatim>\<open>synonyms\<close> and
  \<^verbatim>\<open>antonyms\<close> are never read.
\<close>

record api_phonetic =
  ph_text :: "string option"
  ph_audio :: "string option"

record api_definition =
  def_definition :: string
  def_example :: "string option"

record api_meaning =
  m_partOfSpeech :: string
  m_definitions :: "api_definition list"

record DictionaryApiResponse =
  r_word :: string
  r_phonetic :: "string option"
  r_phonetics :: "api_phonetic list option"
  r_meanings :: "api_meaning list option"

text \<open>
  What \<^verbatim>\<open>fetch\<close> and \<^verbatim>\<open>response.json()\<close> give: the request is rejected (a network error),
  or there is a response with a status and a body; the body is not JSON (\<^verbatim>\<open>json()\<close> rejects),
  or the JSON \<^verbatim>\<open>null\<close>, or an array of entries, which is the type the source declares for
  it. A JSON value of another shape is not modelled.
\<close>

datatype json_body = NotJson | JsonNull | JsonArray "DictionaryApiResponse list"

datatype http_response = NetworkError | Response nat json_body

text \<open>The errors thrown inside \<^verbatim>\<open>fetchWordDetails\<close>.\<close>

datatype js_error = FetchError | ApiError nat | SyntaxError | TypeError

text \<open>\<^verbatim>\<open>response.ok\<close>: the status is in the range 200 to 299.\<close>

definition response_ok :: "nat \<Rightarrow> bool" where
  "response_ok status = (200 \<le> status \<and> status \<le> 299)"

subsection \<open>The loops of \<^verbatim>\<open>fetchWordDetails\<close>\<close>

text \<open>
  \<^verbatim>\<open>wordData.phonetics.forEach(phonetic => ...)\<close>, on the two variables it assigns:
  \<^verbatim>\<open>pronunciations\<close> and \<^verbatim>\<open>mainPronunciation\<close>. An optional string is truthy when it is
  there and not empty.
\<close>

fun phonetics_forEach ::
  "api_phonetic list \<Rightarrow> WordPronunciation list \<times> string \<Rightarrow> WordPronunciation list \<times> string"
where
  "phonetics_forEach [] acc = acc"
| "phonetics_forEach (phonetic # rest) (pronunciations, mainPronunciation) =
     phonetics_forEach rest
       (case ph_text phonetic of
          None \<Rightarrow> (pronunciations, mainPronunciation)
        | Some t \<Rightarrow>
            if t = [] then (pronunciations, mainPronunciation)
            else
              (pronunciations @
                 [\<lparr>pron_text = t,
                   pron_audio =
                     (case ph_audio phonetic of
                        None \<Rightarrow> None
                      | Some a \<Rightarrow> if a \<noteq> [] \<and> trim a \<noteq> [] then Some a else None)\<rparr>],
               if mainPronunciation = [] then t else mainPronunciation))"

text \<open>
  \<^verbatim>\<open>meaning.definitions.forEach((def, index) => ...)\<close> inside
  \<^verbatim>\<open>wordData.meanings.forEach(meaning => ...)\<close>, on the two arrays they push to:
  \<^verbatim>\<open>definitions\<close> and \<^verbatim>\<open>examples\<close>.
\<close>

fun definitions_forEach ::
  "string \<Rightarrow> api_definition list \<Rightarrow> nat \<Rightarrow> WordDefinition list \<times> string list \<Rightarrow>
   WordDefinition list \<times> string list"
where
  "definitions_forEach pos [] index acc = acc"
| "definitions_forEach pos (d # rest) index (definitions, examples) =
     definitions_forEach pos rest (index + 1)
       (if index < 3
        then definitions @ [\<lparr>partOfSpeech = pos, definition_text = def_definition d\<rparr>]
        else definitions,
        case def_example d of
          None \<Rightarrow> examples
        | Some e \<Rightarrow> if e \<noteq> [] \<and> length examples < 5 then examples @ [e] else examples)"

fun meanings_forEach ::
  "api_meaning list \<Rightarrow> WordDefinition list \<times> string list \<Rightarrow>
   WordDefinition list \<times> string list"
where
  "meanings_forEach [] acc = acc"
| "meanings_forEach (meaning # rest) acc =
     meanings_forEach rest
       (definitions_forEach (m_partOfSpeech meaning) (m_definitions meaning) 0 acc)"

subsection \<open>\<^verbatim>\<open>fetchWordDetails\<close>\<close>

text \<open>
  The lookup service is a function from the word asked for to the response: the URL is the
  fixed prefix followed by \<^verbatim>\<open>encodeURIComponent(word.toLowerCase())\<close>, which is one-to-one
  in the lowercased word. \<open>fetchWordDetails_try\<close> is the body of the \<^verbatim>\<open>try\<close> block, a
  thrown error being \<open>Inl\<close>; \<open>fetchWordDetails\<close> is the function with its \<^verbatim>\<open>catch\<close>,
  which logs the error and returns \<^verbatim>\<open>null\<close>.
\<close>

definition fetchWordDetails_try ::
  "(string \<Rightarrow> http_response) \<Rightarrow> string \<Rightarrow> js_error + WordDetails option"
where
  "fetchWordDetails_try fetch word =
     (case fetch (toLowerCase word) of
        NetworkError \<Rightarrow> Inl FetchError
      | Response status body \<Rightarrow>
          if \<not> response_ok status then
            (if status = 404 then Inr None else Inl (ApiError status))
          else
            (case body of
               NotJson \<Rightarrow> Inl SyntaxError
             | JsonNull \<Rightarrow> Inr None
             | JsonArray [] \<Rightarrow> Inr None
             | JsonArray (wordData # _) \<Rightarrow>
                 (let (pronunciations, mainPronunciation) =
                        (case r_phonetics wordData of
                           None \<Rightarrow> ([], [])
                         | Some phonetics \<Rightarrow>
                             if length phonetics > 0 then phonetics_forEach phonetics ([], [])
                             else ([], []));
                      (pronunciations, mainPronunciation) =
                        (case r_phonetic wordData of
                           None \<Rightarrow> (pronunciations, mainPronunciation)
                         | Some p \<Rightarrow>
                             if mainPronunciation = [] \<and> p \<noteq> []
                             then (pronunciations @ [\<lparr>pron_text = p, pron_audio = None\<rparr>], p)
                             else (pronunciations, mainPronunciation));
                      (pronunciations, mainPronunciation) =
                        (if mainPronunciation = []
                         then (pronunciations @
                                 [\<lparr>pron_text = ''/'' @ word @ ''/'', pron_audio = None\<rparr>],
                               ''/'' @ word @ ''/'')
                         else (pronunciations, mainPronunciation))
                  in case r_meanings wordData of
                       None \<Rightarrow> Inl TypeError
                     | Some meanings \<Rightarrow>
                         (let (definitions, examples) = meanings_forEach meanings ([], []);
                              examples =
                                (if length examples = 0
                                 then examples @
                                   [''This is an example sentence with the word '' @ [CHR 0x22] @
                                    word @ [CHR 0x22] @ ''.'']
                                 else examples)
                          in Inr (Some \<lparr>d_pronunciation = mainPronunciation,
                                         d_pronunciations = pronunciations,
                                         d_definitions = take 5 definitions,
                                         d_examples = take 3 examples\<rparr>)))))"

definition fetchWordDetails :: "(string \<Rightarrow> http_response) \<Rightarrow> string \<Rightarrow> WordDetails option" where
  "fetchWordDetails fetch word =
     (case fetchWordDetails_try fetch word of
        Inl error \<Rightarrow> None
      | Inr details \<Rightarrow> details)"

subsection \<open>Numbers\<close>

text \<open>
  A JavaScript number is a double. A finite double is modelled by the rational number it
  stands for, and an operation on doubles by the exact operation followed by \<open>fl\<close>, the
  rounding to the nearest double, ties to the even significand: the argument is scaled by
  a power of two to a significand of 53 bits, which is rounded to an integer. The exponent
  of a positive rational \<open>p / q\<close> in lowest terms is the integer \<open>e\<close> with
  \<open>2 ^ e \<le> p / q < 2 ^ (e + 1)\<close>; it is the difference of the bit lengths of \<open>p\<close> and \<open>q\<close>,
  or one less. The exponent range of a double is left out: the quotients below are between
  \<open>2 ^ - 22\<close> and \<open>2 ^ 33\<close> in absolute value, or zero.
\<close>

definition round_half_even :: "rat \<Rightarrow> int" where
  "round_half_even y =
     (let f = \<lfloor>y\<rfloor>; r = y - of_int f
      in if r < 1 / 2 then f else if 1 / 2 < r then f + 1 else if even f then f else f + 1)"

definition exponent :: "rat \<Rightarrow> int" where
  "exponent a =
     (case quotient_of a of (p, q) \<Rightarrow>
        (let k = bitlen p - bitlen q in if 2 powi k \<le> a then k else k - 1))"

definition fl :: "rat \<Rightarrow> rat" where
  "fl x =
     (if x = 0 then 0
      else (let u = 2 powi (exponent \<bar>x\<bar> - 52)
            in sgn x * of_int (round_half_even (\<bar>x\<bar> / u)) * u))"

definition double_sub :: "rat \<Rightarrow> rat \<Rightarrow> rat" where
  "double_sub a b = fl (a - b)"

definition double_div :: "rat \<Rightarrow> rat \<Rightarrow> rat" where
  "double_div a b = fl (a / b)"

text \<open>
  A number that a caller can pass: a finite double, \<^verbatim>\<open>NaN\<close>, or an infinity; and the
  comparison \<^verbatim>\<open>x > y\<close> of a finite \<open>x\<close> with it, which is false for \<^verbatim>\<open>NaN\<close>.
\<close>

datatype number = Num rat | NaN | Infinity | MinusInfinity

fun greater_than :: "rat \<Rightarrow> number \<Rightarrow> bool" where
  "greater_than x (Num y) = (y < x)"
| "greater_than x NaN = False"
| "greater_than x Infinity = False"
| "greater_than x MinusInfinity = True"

subsection \<open>\<^verbatim>\<open>shouldUpdateWordDetails\<close>\<close>

text \<open>
  The argument \<^verbatim>\<open>lastFetchedAt: string | null | undefined\<close> by what the function does with
  it: a falsy value (\<^verbatim>\<open>null\<close>, \<^verbatim>\<open>undefined\<close>, the empty string), a string that
  \<^verbatim>\<open>new Date\<close> reads as a time, or a string it cannot read (then \<^verbatim>\<open>getTime()\<close> is \<^verbatim>\<open>NaN\<close>,
  so is \<^verbatim>\<open>hoursDiff\<close>, and every comparison with \<^verbatim>\<open>NaN\<close> is false). A time is a whole
  number of milliseconds since the epoch, of absolute value at most 8.64e15. The clock
  \<^verbatim>\<open>new Date()\<close> is the argument \<open>now\<close>. The optional parameter \<^verbatim>\<open>maxAgeHours\<close> is \<open>None\<close>
  when the caller leaves it out. The products \<^verbatim>\<open>24 * 7\<close> and \<^verbatim>\<open>1000 * 60 * 60\<close> are exact.
\<close>

datatype date_string = NoDate | DateMs int | InvalidDate

definition shouldUpdateWordDetails :: "int \<Rightarrow> date_string \<Rightarrow> number option \<Rightarrow> bool" where
  "shouldUpdateWordDetails now lastFetchedAt maxAgeHours_arg =
     (let maxAgeHours = (case maxAgeHours_arg of None \<Rightarrow> Num (24 * 7) | Some h \<Rightarrow> h) in
      case lastFetchedAt of
        NoDate \<Rightarrow> True
      | InvalidDate \<Rightarrow> False
      | DateMs lastFetched \<Rightarrow>
          (let hoursDiff =
                 double_div (double_sub (of_int now) (of_int lastFetched)) (1000 * 60 * 60)
           in greater_than hoursDiff maxAgeHours))"

text \<open>The double nearest to 0.3, which is a little less than 0.3.\<close>

definition double_0_3 :: rat where
  "double_0_3 = 5404319552844595 / 2 ^ 54"


subsection \<open>Notions for the statements about the fetcher\<close>

text \<open>
  The first three definitions of a meaning group, each tagged with the part of speech of
  its group.
\<close>

definition first_three :: "api_meaning \<Rightarrow> WordDefinition list" where
  "first_three m =
     map (\<lambda>d. \<lparr>partOfSpeech = m_partOfSpeech m, definition_text = def_definition d\<rparr>)
       (take 3 (m_definitions m))"

text \<open>
  An entry of the phonetics list has text when the field is there and not empty; its audio
  URL is there when the field is there and not blank; \<open>pronunciation_of\<close> is the
  pronunciation variant made of the two. The phonetics list of an entry is empty when the
  field is missing. The placeholder pronunciation is the word between two slashes.
\<close>

definition has_text :: "api_phonetic \<Rightarrow> bool" where
  "has_text p = (case ph_text p of None \<Rightarrow> False | Some t \<Rightarrow> t \<noteq> [])"

definition audio_url :: "api_phonetic \<Rightarrow> string option" where
  "audio_url p =
     (case ph_audio p of None \<Rightarrow> None | Some a \<Rightarrow> if trim a = [] then None else Some a)"

definition pronunciation_of :: "api_phonetic \<Rightarrow> WordPronunciation" where
  "pronunciation_of p =
     \<lparr>pron_text = (case ph_text p of None \<Rightarrow> [] | Some t \<Rightarrow> t), pron_audio = audio_url p\<rparr>"

definition phonetics_list :: "DictionaryApiResponse \<Rightarrow> api_phonetic list" where
  "phonetics_list wordData = (case r_phonetics wordData of None \<Rightarrow> [] | Some ps \<Rightarrow> ps)"

definition placeholder :: "string \<Rightarrow> string" where
  "placeholder word = ''/'' @ word @ ''/''"

text \<open>
  Example responses: an entry with four meaning groups of four definitions each, whose
  phonetics list has an entry without text and two with text; an entry with only a
  top-level phonetic field; an entry with no phonetic data; an entry without meanings; and
  services that answer every request with one of these, with status 404, with status 500,
  with a network error, with a body that is not JSON, with \<^verbatim>\<open>null\<close>, or with an empty
  array.
\<close>

definition four_definitions :: "string \<Rightarrow> api_definition list" where
  "four_definitions s =
     map (\<lambda>n. \<lparr>def_definition = s @ n, def_example = None\<rparr>) [''1'', ''2'', ''3'', ''4'']"

definition entry_4x4 :: DictionaryApiResponse where
  "entry_4x4 =
     \<lparr>r_word = ''run'', r_phonetic = Some ''/top/'',
      r_phonetics = Some
        [\<lparr>ph_text = None, ph_audio = Some ''a.mp3''\<rparr>,
         \<lparr>ph_text = Some ''/run/'', ph_audio = Some '' ''\<rparr>,
         \<lparr>ph_text = Some ''/ran/'', ph_audio = Some ''b.mp3''\<rparr>],
      r_meanings = Some
        [\<lparr>m_partOfSpeech = ''noun'', m_definitions = four_definitions ''n''\<rparr>,
         \<lparr>m_partOfSpeech = ''verb'', m_definitions = four_definitions ''v''\<rparr>,
         \<lparr>m_partOfSpeech = ''adjective'', m_definitions = four_definitions ''a''\<rparr>,
         \<lparr>m_partOfSpeech = ''adverb'', m_definitions = four_definitions ''d''\<rparr>]\<rparr>"

definition entry_top_level :: DictionaryApiResponse where
  "entry_top_level =
     \<lparr>r_word = ''cat'', r_phonetic = Some ''/kat/'',
      r_phonetics = Some [\<lparr>ph_text = Some [], ph_audio = Some ''c.mp3''\<rparr>],
      r_meanings = Some []\<rparr>"

definition entry_bare :: DictionaryApiResponse where
  "entry_bare =
     \<lparr>r_word = ''cat'', r_phonetic = None, r_phonetics = None, r_meanings = Some []\<rparr>"

definition entry_no_meanings :: DictionaryApiResponse where
  "entry_no_meanings =
     \<lparr>r_word = ''cat'', r_phonetic = None, r_phonetics = None, r_meanings = None\<rparr>"

definition service_ok :: "DictionaryApiResponse \<Rightarrow> string \<Rightarrow> http_response" where
  "service_ok entry url = Response 200 (JsonArray [entry])"

definition service_404 :: "string \<Rightarrow> http_response" where
  "service_404 url = Response 404 JsonNull"

definition service_500 :: "string \<Rightarrow> http_response" where
  "service_500 url = Response 500 JsonNull"

definition service_down :: "string \<Rightarrow> http_response" where
  "service_down url = NetworkError"

definition service_not_json :: "string \<Rightarrow> http_response" where
  "service_not_json url = Response 200 NotJson"

definition service_null :: "string \<Rightarrow> http_response" where
  "service_null url = Response 200 JsonNull"

definition service_empty :: "string \<Rightarrow> http_response" where
  "service_empty url = Response 200 (JsonArray [])"

section \<open>Word store (lib/supabase.ts)\<close>

subsection \<open>The table\<close>

text \<open>
  The interface \<^verbatim>\<open>Word\<close>, a row of the table \<^verbatim>\<open>words\<close> (the field \<^verbatim>\<open>id\<close> is \<open>word_id\<close> here).
  An identifier is opaque, a timestamp is a number of milliseconds since the epoch, and a
  nullable column is an \<^typ>\<open>'a option\<close>.
\<close>

type_synonym uuid = nat

type_synonym timestamp = int

record Word =
  word_id :: uuid
  word :: string
  frequency :: int
  created_at :: timestamp
  pronunciation :: "string option"
  pronunciations :: "WordPronunciation list option"
  examples :: "string list option"
  definitions :: "WordDefinition list option"
  last_fetched_at :: "timestamp option"

text \<open>
  The store is the table and the requests it has been sent, in the order in which it served
  them. The migrations declare \<^verbatim>\<open>id uuid PRIMARY KEY\<close> and \<^verbatim>\<open>word text UNIQUE NOT NULL\<close>: in a
  well-formed table no two rows share an identifier or a word. The column \<^verbatim>\<open>frequency\<close> is
  an \<^verbatim>\<open>integer\<close> of 32 bits.
\<close>

datatype request =
    Select_word string
  | Update_frequency uuid int
  | Insert_word string
  | Update_details uuid

record store =
  table :: "Word list"
  requests :: "request list"

definition wf_table :: "Word list \<Rightarrow> bool" where
  "wf_table tbl = (distinct (map word_id tbl) \<and> distinct (map word tbl))"

definition int4 :: "int \<Rightarrow> bool" where
  "int4 n = (- 2147483648 \<le> n \<and> n \<le> 2147483647)"

datatype PostgrestError = TransportError | NoRows | MultipleRows | UniqueViolation | OutOfRange

subsection \<open>The queries of the client library\<close>

text \<open>
  \<^verbatim>\<open>.select('*').eq('word', w).maybeSingle()\<close>: no row is \<^verbatim>\<open>null\<close>, one row is the row, more
  are an error. The flag \<open>fault\<close> of every query says that the request fails on its way or
  in the database; a failed request changes nothing.
\<close>

definition select_eq_word_maybeSingle ::
  "bool \<Rightarrow> string \<Rightarrow> Word list \<Rightarrow> PostgrestError + Word option"
where
  "select_eq_word_maybeSingle fault w tbl =
     (if fault then Inl TransportError
      else case filter (\<lambda>r. word r = w) tbl of
             [] \<Rightarrow> Inr None
           | [r] \<Rightarrow> Inr (Some r)
           | _ \<Rightarrow> Inl MultipleRows)"

text \<open>
  \<^verbatim>\<open>.update(values).eq('id', i).select().single()\<close>. The client sends
  \<^verbatim>\<open>JSON.stringify(values)\<close> as the body of a PATCH request, and \<^verbatim>\<open>JSON.stringify\<close> leaves
  out every property whose value is \<^verbatim>\<open>undefined\<close>; the database sets the columns that the
  body names and no other. So the values are a \<open>patch\<close>: for each column that the source
  updates, the new value, or \<open>None\<close> when the property is \<^verbatim>\<open>undefined\<close> or not written.
  \<^verbatim>\<open>single()\<close> wants exactly one row: no row or several are an error.
\<close>

record patch =
  set_frequency :: "int option"
  set_pronunciation :: "string option"
  set_pronunciations :: "WordPronunciation list option"
  set_definitions :: "WordDefinition list option"
  set_examples :: "string list option"
  set_last_fetched_at :: "timestamp option"

definition apply_patch :: "patch \<Rightarrow> Word \<Rightarrow> Word" where
  "apply_patch p r =
     r\<lparr>frequency := (case set_frequency p of None \<Rightarrow> frequency r | Some f \<Rightarrow> f),
       pronunciation :=
         (case set_pronunciation p of None \<Rightarrow> pronunciation r | Some v \<Rightarrow> Some v),
       pronunciations :=
         (case set_pronunciations p of None \<Rightarrow> pronunciations r | Some v \<Rightarrow> Some v),
       definitions :=
         (case set_definitions p of None \<Rightarrow> definitions r | Some v \<Rightarrow> Some v),
       examples := (case set_examples p of None \<Rightarrow> examples r | Some v \<Rightarrow> Some v),
       last_fetched_at :=
         (case set_last_fetched_at p of None \<Rightarrow> last_fetched_at r | Some v \<Rightarrow> Some v)\<rparr>"

definition update_eq_id_single ::
  "bool \<Rightarrow> patch \<Rightarrow> uuid \<Rightarrow> Word list \<Rightarrow> PostgrestError + Word \<times> Word list"
where
  "update_eq_id_single fault p i tbl =
     (if fault then Inl TransportError
      else if (case set_frequency p of None \<Rightarrow> False | Some f \<Rightarrow> \<not> int4 f) then Inl OutOfRange
      else case filter (\<lambda>r. word_id r = i) tbl of
             [] \<Rightarrow> Inl NoRows
           | [r] \<Rightarrow>
               Inr (apply_patch p r,
                    map (\<lambda>r. if word_id r = i then apply_patch p r else r) tbl)
           | _ \<Rightarrow> Inl MultipleRows)"

text \<open>
  \<^verbatim>\<open>.insert([{ word: w, frequency: f }]).select().single()\<close>. The database gives the new row
  its identifier (\<^verbatim>\<open>gen_random_uuid()\<close>) and its creation time (\<^verbatim>\<open>now()\<close>), which are
  arguments here, and refuses a row whose word or identifier is in the table already.
\<close>

definition insert_single ::
  "bool \<Rightarrow> uuid \<Rightarrow> timestamp \<Rightarrow> string \<Rightarrow> int \<Rightarrow> Word list \<Rightarrow> PostgrestError + Word \<times> Word list"
where
  "insert_single fault new_id now w f tbl =
     (if fault then Inl TransportError
      else if w \<in> set (map word tbl) \<or> new_id \<in> set (map word_id tbl) then Inl UniqueViolation
      else
        (let r = \<lparr>word_id = new_id, word = w, frequency = f, created_at = now,
                  pronunciation = None, pronunciations = None, examples = None,
                  definitions = None, last_fetched_at = None\<rparr>
         in Inr (r, tbl @ [r])))"

subsection \<open>\<^verbatim>\<open>addOrUpdateWord\<close>\<close>

text \<open>
  What the environment decides for one call of \<^verbatim>\<open>addOrUpdateWord\<close>: whether its first
  request (the select) fails, whether its second request (the update or the insert) fails,
  and the identifier and the creation time that the database gives to a row it inserts.
\<close>

record upsert_env =
  select_fault :: bool
  write_fault :: bool
  new_id :: uuid
  db_now :: timestamp

definition log_request :: "request \<Rightarrow> store \<Rightarrow> store" where
  "log_request q st = st\<lparr>requests := requests st @ [q]\<rparr>"

text \<open>
  The function as the source has it: the result is the row, or \<^verbatim>\<open>null\<close> from the \<^verbatim>\<open>catch\<close>
  block, which every thrown error reaches.
\<close>

definition addOrUpdateWord :: "upsert_env \<Rightarrow> string \<Rightarrow> store \<Rightarrow> Word option \<times> store" where
  "addOrUpdateWord env w st =
     (let normalizedWord = toLowerCase w;
          st1 = log_request (Select_word normalizedWord) st
      in case select_eq_word_maybeSingle (select_fault env) normalizedWord (table st1) of
           Inl fetchError \<Rightarrow> (None, st1)
         | Inr (Some existingWord) \<Rightarrow>
             (let st2 = log_request
                    (Update_frequency (word_id existingWord) (frequency existingWord + 1)) st1
              in case update_eq_id_single (write_fault env)
                     \<lparr>set_frequency = Some (frequency existingWord + 1),
                      set_pronunciation = None, set_pronunciations = None,
                      set_definitions = None, set_examples = None,
                      set_last_fetched_at = None\<rparr>
                     (word_id existingWord) (table st2) of
                   Inl error \<Rightarrow> (None, st2)
                 | Inr (data, tbl) \<Rightarrow> (Some data, st2\<lparr>table := tbl\<rparr>))
         | Inr None \<Rightarrow>
             (let st2 = log_request (Insert_word normalizedWord) st1
              in case insert_single (write_fault env) (new_id env) (db_now env)
                     normalizedWord 1 (table st2) of
                   Inl error \<Rightarrow> (None, st2)
                 | Inr (data, tbl) \<Rightarrow> (Some data, st2\<lparr>table := tbl\<rparr>)))"

text \<open>
  The same function between its two \<^verbatim>\<open>await\<close>s, for calls that run together: a call has
  not started, or it has the answer of its select and has yet to send its update or its
  insert, or it is done with its result. \<open>upsert_step\<close> takes a call to its next
  \<^verbatim>\<open>await\<close>.
\<close>

datatype task = Start | Found Word | NotFound | Done "Word option"

fun upsert_step :: "upsert_env \<Rightarrow> string \<Rightarrow> task \<Rightarrow> store \<Rightarrow> task \<times> store" where
  "upsert_step env w Start st =
     (let normalizedWord = toLowerCase w;
          st1 = log_request (Select_word normalizedWord) st
      in case select_eq_word_maybeSingle (select_fault env) normalizedWord (table st1) of
           Inl fetchError \<Rightarrow> (Done None, st1)
         | Inr (Some existingWord) \<Rightarrow> (Found existingWord, st1)
         | Inr None \<Rightarrow> (NotFound, st1))"
| "upsert_step env w (Found existingWord) st =
     (let st2 = log_request
            (Update_frequency (word_id existingWord) (frequency existingWord + 1)) st
      in case update_eq_id_single (write_fault env)
             \<lparr>set_frequency = Some (frequency existingWord + 1),
              set_pronunciation = None, set_pronunciations = None,
              set_definitions = None, set_examples = None,
              set_last_fetched_at = None\<rparr>
             (word_id existingWord) (table st2) of
           Inl error \<Rightarrow> (Done None, st2)
         | Inr (data, tbl) \<Rightarrow> (Done (Some data), st2\<lparr>table := tbl\<rparr>))"
| "upsert_step env w NotFound st =
     (let normalizedWord = toLowerCase w;
          st2 = log_request (Insert_word normalizedWord) st
      in case insert_single (write_fault env) (new_id env) (db_now env)
             normalizedWord 1 (table st2) of
           Inl error \<Rightarrow> (Done None, st2)
         | Inr (data, tbl) \<Rightarrow> (Done (Some data), st2\<lparr>table := tbl\<rparr>))"
| "upsert_step env w (Done result) st = (Done result, st)"

fun task_result :: "task \<Rightarrow> Word option" where
  "task_result (Done result) = result"
| "task_result _ = None"

subsection \<open>\<^verbatim>\<open>updateWordDetails\<close>\<close>

text \<open>
  The argument \<^verbatim>\<open>details\<close>, with its four optional fields, and the function. The clock
  \<^verbatim>\<open>new Date()\<close> is the argument \<open>now\<close>.
\<close>

record details_arg =
  arg_pronunciation :: "string option"
  arg_pronunciations :: "WordPronunciation list option"
  arg_definitions :: "WordDefinition list option"
  arg_examples :: "string list option"

definition updateWordDetails ::
  "bool \<Rightarrow> timestamp \<Rightarrow> uuid \<Rightarrow> details_arg \<Rightarrow> store \<Rightarrow> Word option \<times> store"
where
  "updateWordDetails fault now wordId details st =
     (let st1 = log_request (Update_details wordId) st
      in case update_eq_id_single fault
             \<lparr>set_frequency = None,
              set_pronunciation = arg_pronunciation details,
              set_pronunciations = arg_pronunciations details,
              set_definitions = arg_definitions details,
              set_examples = arg_examples details,
              set_last_fetched_at = Some now\<rparr>
             wordId (table st1) of
           Inl error \<Rightarrow> (None, st1)
         | Inr (data, tbl) \<Rightarrow> (Some data, st1\<lparr>table := tbl\<rparr>))"

subsection \<open>Calls in flight\<close>

text \<open>
  The table is shared: while the calls of a batch run, other calls of the functions that
  write to it can be in flight, from a submission that overlaps with this one or from the
  enrichment of a word. Such a call is a call of \<^verbatim>\<open>addOrUpdateWord\<close> for a word, or a call of
  \<^verbatim>\<open>updateWordDetails\<close>, which sends one request. (\<^verbatim>\<open>getAllWords\<close> and \<^verbatim>\<open>getWordById\<close> only
  read, and nothing in the source deletes a row.) \<open>call_step\<close> takes a call to its next
  \<^verbatim>\<open>await\<close>.
\<close>

datatype call = Upsert string | Enrich bool timestamp uuid details_arg

fun call_step :: "upsert_env \<Rightarrow> call \<Rightarrow> task \<Rightarrow> store \<Rightarrow> task \<times> store" where
  "call_step env (Upsert w) t st = upsert_step env w t st"
| "call_step env (Enrich fault now wordId details) Start st =
     (case updateWordDetails fault now wordId details st of
        (result, st') \<Rightarrow> (Done result, st'))"
| "call_step env (Enrich fault now wordId details) t st = (t, st)"

subsection \<open>\<^verbatim>\<open>addOrUpdateWordsConcurrently\<close>\<close>

text \<open>
  \<^verbatim>\<open>[...new Set(xs)]\<close>: the elements of \<open>xs\<close> in the order of their first occurrence.
\<close>

definition spread_Set :: "'a list \<Rightarrow> 'a list" where
  "spread_Set xs = foldl (\<lambda>seen x. if x \<in> set seen then seen else seen @ [x]) [] xs"

text \<open>
  \<^verbatim>\<open>Promise.all(uniqueWords.map(async (word) => ...))\<close> starts one call of
  \<^verbatim>\<open>addOrUpdateWord\<close> per element of the array \<^verbatim>\<open>uniqueWords\<close> and waits for them all. The
  calls of the batch are numbered by their position in the array, and the calls \<open>others\<close>
  that are in flight on the table at the same time follow them: call \<open>i\<close> is
  \<open>(map Upsert uniqueWords @ others) ! i\<close>. The requests of all these calls are in flight
  together, and the store serves them in an order of its own. That order is the argument
  \<open>schedule\<close>, a list of numbers: each occurrence of \<open>i\<close> takes call \<open>i\<close> to its next
  \<^verbatim>\<open>await\<close>, and a number that is no call is skipped. \<^verbatim>\<open>Promise.all\<close> waits for the calls of
  the batch, not for the others: the calls of the batch that the schedule leaves unfinished
  are completed afterwards in the order of the array. So every order in which the store can
  serve the requests is a schedule. The environment is a function of the number of the
  call.

  The inner \<^verbatim>\<open>try\<close> finds nothing to catch, as \<^verbatim>\<open>addOrUpdateWord\<close> returns \<^verbatim>\<open>null\<close> and never
  throws, and neither does the outer one.
\<close>

definition run_step ::
  "(nat \<Rightarrow> upsert_env) \<Rightarrow> call list \<Rightarrow> nat \<Rightarrow> (nat \<Rightarrow> task) \<times> store \<Rightarrow> (nat \<Rightarrow> task) \<times> store"
where
  "run_step env calls i s =
     (case s of (tasks, st) \<Rightarrow>
        if i < length calls then
          (case call_step (env i) (calls ! i) (tasks i) st of (t, st') \<Rightarrow> (tasks(i := t), st'))
        else (tasks, st))"

definition promise_all ::
  "(nat \<Rightarrow> upsert_env) \<Rightarrow> nat list \<Rightarrow> string list \<Rightarrow> call list \<Rightarrow> store \<Rightarrow>
   (nat \<Rightarrow> task) \<times> store"
where
  "promise_all env schedule uniqueWords others st =
     fold (run_step env (map Upsert uniqueWords @ others))
       (schedule @ [0..<length uniqueWords] @ [0..<length uniqueWords])
       (\<lambda>i. Start, st)"

definition addOrUpdateWordsConcurrently ::
  "(nat \<Rightarrow> upsert_env) \<Rightarrow> nat list \<Rightarrow> call list \<Rightarrow> string list \<Rightarrow> store \<Rightarrow>
   (Word list \<times> string list) \<times> store"
where
  "addOrUpdateWordsConcurrently env schedule others words st =
     (let uniqueWords = spread_Set (map toLowerCase words)
      in case promise_all env schedule uniqueWords others st of
           (tasks, st') \<Rightarrow>
             (let results = map (\<lambda>i. (uniqueWords ! i, task_result (tasks i)))
                              [0..<length uniqueWords];
                  success = concat (map (\<lambda>(w, result).
                              case result of None \<Rightarrow> [] | Some r \<Rightarrow> [r]) results);
                  failed = concat (map (\<lambda>(w, result).
                              case result of None \<Rightarrow> [w] | Some r \<Rightarrow> []) results)
              in ((success, failed), st')))"


section \<open>Ingestion (WordInput.tsx, processWords)\<close>

text \<open>
  The state of the component, the refresh key of the application (which the callback
  \<^verbatim>\<open>onWordsAdded\<close> increments), and the store. The \<^verbatim>\<open>catch\<close> block of \<^verbatim>\<open>processWords\<close> is
  never entered, as nothing in its \<^verbatim>\<open>try\<close> block throws; the timer that its \<^verbatim>\<open>finally\<close>
  block sets fires four seconds after the function has returned and is not part of it.
\<close>

record WordInput_state =
  inputText :: string
  isProcessing :: bool
  processedWords :: "string list"
  failedWords :: "string list"

definition processWords ::
  "(nat \<Rightarrow> upsert_env) \<Rightarrow> nat list \<Rightarrow> call list \<Rightarrow> WordInput_state \<times> nat \<times> store \<Rightarrow>
   WordInput_state \<times> nat \<times> store"
where
  "processWords env schedule others s =
     (case s of (ui, refreshKey, st) \<Rightarrow>
        if trim (inputText ui) = [] then (ui, refreshKey, st)
        else
          (let ui1 = ui\<lparr>isProcessing := True, processedWords := [], failedWords := []\<rparr>;
               words = processWords_words (inputText ui)
           in if length words = 0 then (ui1\<lparr>isProcessing := False\<rparr>, refreshKey, st)
              else
                (case addOrUpdateWordsConcurrently env schedule others words st of
                   ((success, failed), st') \<Rightarrow>
                     (ui1\<lparr>processedWords := map word success, failedWords := failed,
                          inputText := [], isProcessing := False\<rparr>,
                      refreshKey + 1, st'))))"

subsection \<open>Notions for the statements about the store\<close>

text \<open>The row of a word, the frequency stored for a word, and the row of an identifier.\<close>

definition row_of :: "Word list \<Rightarrow> string \<Rightarrow> Word option" where
  "row_of tbl w = find (\<lambda>r. word r = w) tbl"

definition frequency_of :: "Word list \<Rightarrow> string \<Rightarrow> int option" where
  "frequency_of tbl w = map_option frequency (row_of tbl w)"

definition row_of_id :: "Word list \<Rightarrow> uuid \<Rightarrow> Word option" where
  "row_of_id tbl i = find (\<lambda>r. word_id r = i) tbl"


fun target :: "call \<Rightarrow> string list" where
  "target (Upsert w) = [toLowerCase w]"
| "target (Enrich fault now wordId details) = []"



subsection \<open>Invariants of a batch\<close>

text \<open>
  What holds of every call, whatever else is in flight: the row that a call of
  \<^verbatim>\<open>addOrUpdateWord\<close> has found is still in the table under its identifier and its word
  (no row is deleted, and no request changes the identifier or the word of a row), and the
  row that the call returns has the word of the call.
\<close>

definition keys :: "Word list \<Rightarrow> (uuid \<times> string) set" where
  "keys tbl = set (map (\<lambda>r. (word_id r, word r)) tbl)"

fun task_sound :: "Word list \<Rightarrow> call \<Rightarrow> task \<Rightarrow> bool" where
  "task_sound tbl (Upsert w) (Found r) = ((word_id r, toLowerCase w) \<in> keys tbl)"
| "task_sound tbl (Upsert w) (Done (Some r)) = (word r = toLowerCase w)"
| "task_sound tbl c t = True"

text \<open>
  What holds of the call for the word \<open>v\<close> when no other call in flight is for that word,
  between the table \<open>tbl0\<close> at the start and the table \<open>tbl\<close> now: before its write the
  call has seen the identifier and the frequency that the table still has for the word, and
  after it the table has the frequency of the row that the call returns, one above the
  frequency at the start.
\<close>

definition idf :: "Word list \<Rightarrow> string \<Rightarrow> (uuid \<times> int) option" where
  "idf tbl v = map_option (\<lambda>r. (word_id r, frequency r)) (row_of tbl v)"

fun task_ok :: "Word list \<Rightarrow> Word list \<Rightarrow> string \<Rightarrow> task \<Rightarrow> bool" where
  "task_ok tbl0 tbl v Start = (idf tbl v = idf tbl0 v)"
| "task_ok tbl0 tbl v (Found r) =
     (idf tbl0 v = Some (word_id r, frequency r) \<and> idf tbl v = Some (word_id r, frequency r))"
| "task_ok tbl0 tbl v NotFound = (idf tbl0 v = None \<and> idf tbl v = None)"
| "task_ok tbl0 tbl v (Done None) = (idf tbl v = idf tbl0 v)"
| "task_ok tbl0 tbl v (Done (Some r')) =
     (map_option snd (idf tbl v) = Some (frequency r') \<and>
      frequency r' = (case idf tbl0 v of None \<Rightarrow> 1 | Some (i, f) \<Rightarrow> f + 1))"

fun rank :: "task \<Rightarrow> nat" where
  "rank Start = 0"
| "rank (Found r) = 1"
| "rank NotFound = 1"
| "rank (Done result) = 2"

definition alone :: "call list \<Rightarrow> nat \<Rightarrow> bool" where
  "alone calls i =
     (\<forall>j<length calls. j \<noteq> i \<longrightarrow> set (target (calls ! j)) \<inter> set (target (calls ! i)) = {})"

definition batch_inv :: "call list \<Rightarrow> Word list \<Rightarrow> (nat \<Rightarrow> task) \<times> store \<Rightarrow> bool" where
  "batch_inv calls tbl0 s =
     (wf_table (table (snd s)) \<and>
      (\<forall>i<length calls. task_sound (table (snd s)) (calls ! i) (fst s i)) \<and>
      (\<forall>i<length calls. alone calls i \<longrightarrow>
         (\<forall>v\<in>set (target (calls ! i)). task_ok tbl0 (table (snd s)) v (fst s i))))"


subsection \<open>Example data\<close>

text \<open>
  An environment in which no request fails and the database numbers the new rows by the
  number of the call, one in which every select fails, and one in which the select of call
  1 fails and no other request does; a table with the word cat seen three times and
  enriched; an empty store; a payload with examples only; and a state of the input
  component.
\<close>

definition env_ok :: "nat \<Rightarrow> upsert_env" where
  "env_ok i = \<lparr>select_fault = False, write_fault = False, new_id = 100 + i, db_now = 5000\<rparr>"


definition env_second_down :: "nat \<Rightarrow> upsert_env" where
  "env_second_down i =
     \<lparr>select_fault = (i = 1), write_fault = False, new_id = 100 + i, db_now = 5000\<rparr>"

definition cat_row :: Word where
  "cat_row =
     \<lparr>word_id = 1, word = ''cat'', frequency = 3, created_at = 1000,
      pronunciation = Some ''/kat/'', pronunciations = None, examples = None,
      definitions = Some [\<lparr>partOfSpeech = ''noun'', definition_text = ''a small animal''\<rparr>],
      last_fetched_at = Some 2000\<rparr>"

definition cat_store :: store where
  "cat_store = \<lparr>table = [cat_row], requests = []\<rparr>"


definition examples_only :: details_arg where
  "examples_only =
     \<lparr>arg_pronunciation = None, arg_pronunciations = None, arg_definitions = None,
      arg_examples = Some [''The cat sat.'']\<rparr>"

definition ui_of :: "string \<Rightarrow> WordInput_state" where
  "ui_of t = \<lparr>inputText = t, isProcessing = False, processedWords = [''old''], failedWords = []\<rparr>"


section \<open>Facts about the string functions\<close>

lemma alphabet_codes:
  "(of_char ` set ''abcdefghijklmnopqrstuvwxyz'' :: nat set) = {97..122}"
proof -
  have "map of_char ''abcdefghijklmnopqrstuvwxyz'' = [97..<123::nat]"
    by code_simp
  then have "set (map of_char ''abcdefghijklmnopqrstuvwxyz'') = set [97..<123::nat]"
    by (rule arg_cong)
  moreover have "{97..<123::nat} = {97..122}"
    by auto
  ultimately show ?thesis
    by (simp only: set_map set_upt)
qed

lemma isLowerLatin_alphabet:
  "isLowerLatin c = (c \<in> set ''abcdefghijklmnopqrstuvwxyz'')"
proof -
  have "c \<in> set ''abcdefghijklmnopqrstuvwxyz'' \<longleftrightarrow>
        (of_char c :: nat) \<in> of_char ` set ''abcdefghijklmnopqrstuvwxyz''"
    using inj_of_char [where ?'a = nat] by (simp only: inj_image_mem_iff)
  also have "\<dots> \<longleftrightarrow> (of_char c :: nat) \<in> {97..122}"
    by (simp only: alphabet_codes)
  finally show ?thesis
    by (simp add: isLowerLatin_def)
qed

lemma filter_length_two:
  "filter (\<lambda>w. length w \<ge> 2) (filter (\<lambda>w. length w > 0) ws) =
   filter (\<lambda>w. length w \<noteq> 1) (filter (\<lambda>w. w \<noteq> []) ws)" for ws :: "string list"
proof -
  have "(w \<noteq> [] \<and> 2 \<le> length w) = (w \<noteq> [] \<and> length w \<noteq> 1)" for w :: string
    unfolding length_0_conv [symmetric] by arith
  then show ?thesis
    by simp
qed

lemma lowerChar_not_upper: "\<not> isUpper (lowerChar c)"
  by (simp add: lowerChar_def isUpper_def Let_def)

lemma lowerChar_idem: "lowerChar (lowerChar c) = lowerChar c"
  using lowerChar_not_upper [of c] by (simp add: lowerChar_def [of "lowerChar c"])

lemma toLowerCase_idem: "toLowerCase (toLowerCase s) = toLowerCase s"
  by (simp add: toLowerCase_def lowerChar_idem)






lemma filter_map_keep_letters:
  "filter (\<lambda>w. length w > 0) (map keep_letters (filter (\<lambda>w. length w > 0) ps)) =
   filter (\<lambda>w. length w > 0) (map keep_letters ps)"
  by (induction ps) (simp_all add: keep_letters_def)


section \<open>Facts about the fetcher\<close>

lemma trim_Nil: "trim [] = []"
  by (simp add: trim_def)

lemma definitions_forEach_fst:
  "fst (definitions_forEach pos ds i (defs, exs)) =
   defs @ map (\<lambda>d. \<lparr>partOfSpeech = pos, definition_text = def_definition d\<rparr>) (take (3 - i) ds)"
proof (induction ds arbitrary: i defs exs)
  case Nil
  then show ?case by simp
next
  case (Cons d ds)
  show ?case
  proof (cases "i < 3")
    case True
    then have "3 - i = Suc (3 - (i + 1))" by simp
    with True Cons.IH show ?thesis by simp
  next
    case False
    with Cons.IH show ?thesis by simp
  qed
qed

lemma meanings_forEach_fst:
  "fst (meanings_forEach ms (defs, exs)) = defs @ concat (map first_three ms)"
proof (induction ms arbitrary: defs exs)
  case Nil
  then show ?case by simp
next
  case (Cons m ms)
  obtain defs' exs' where
    step: "definitions_forEach (m_partOfSpeech m) (m_definitions m) 0 (defs, exs) = (defs', exs')"
    by (cases "definitions_forEach (m_partOfSpeech m) (m_definitions m) 0 (defs, exs)")
  from definitions_forEach_fst [of "m_partOfSpeech m" "m_definitions m" 0 defs exs] step
  have "defs' = defs @ first_three m"
    by (simp add: first_three_def)
  with Cons.IH [of defs' exs'] step show ?case by simp
qed

lemma phonetics_forEach_eq:
  "phonetics_forEach ps (prons, main) =
     (prons @ map pronunciation_of (filter has_text ps),
      if main \<noteq> [] then main
      else (case filter has_text ps of [] \<Rightarrow> [] | p # _ \<Rightarrow> pron_text (pronunciation_of p)))"
proof (induction ps arbitrary: prons main)
  case Nil
  then show ?case by simp
next
  case (Cons p ps)
  show ?case
  proof (cases "has_text p")
    case False
    then have "(case ph_text p of None \<Rightarrow> (prons, main)
        | Some t \<Rightarrow> if t = [] then (prons, main) else (prons @ [\<lparr>pron_text = t, pron_audio =
           (case ph_audio p of None \<Rightarrow> None
              | Some a \<Rightarrow> if a \<noteq> [] \<and> trim a \<noteq> [] then Some a else None)\<rparr>],
            if main = [] then t else main)) = (prons, main)"
      by (simp add: has_text_def split: option.splits)
    with False Cons.IH [of prons main] show ?thesis by simp
  next
    case True
    then obtain t where t: "ph_text p = Some t" "t \<noteq> []"
      by (auto simp: has_text_def split: option.splits)
    have audio: "(case ph_audio p of None \<Rightarrow> None
              | Some a \<Rightarrow> if a \<noteq> [] \<and> trim a \<noteq> [] then Some a else None) = audio_url p"
      by (auto simp: audio_url_def trim_Nil split: option.splits)
    have p: "pronunciation_of p = \<lparr>pron_text = t, pron_audio = audio_url p\<rparr>"
      by (simp add: pronunciation_of_def t)
    show ?thesis
      using True t Cons.IH [of "prons @ [pronunciation_of p]" "if main = [] then t else main"]
      by (simp add: audio p)
  qed
qed

lemma pron_text_has_text: "has_text p \<Longrightarrow> pron_text (pronunciation_of p) \<noteq> []"
  by (auto simp: has_text_def pronunciation_of_def split: option.splits)

lemma fetchWordDetails_try_cases:
  "fetch (toLowerCase w) = NetworkError \<Longrightarrow> fetchWordDetails_try fetch w = Inl FetchError"
  "fetch (toLowerCase w) = Response status body \<Longrightarrow> \<not> response_ok status \<Longrightarrow>
     fetchWordDetails_try fetch w = (if status = 404 then Inr None else Inl (ApiError status))"
  "fetch (toLowerCase w) = Response status NotJson \<Longrightarrow> response_ok status \<Longrightarrow>
     fetchWordDetails_try fetch w = Inl SyntaxError"
  "fetch (toLowerCase w) = Response status JsonNull \<Longrightarrow> response_ok status \<Longrightarrow>
     fetchWordDetails_try fetch w = Inr None"
  "fetch (toLowerCase w) = Response status (JsonArray []) \<Longrightarrow> response_ok status \<Longrightarrow>
     fetchWordDetails_try fetch w = Inr None"
  "fetch (toLowerCase w) = Response status (JsonArray (wordData # others)) \<Longrightarrow>
     response_ok status \<Longrightarrow> r_meanings wordData = None \<Longrightarrow>
     fetchWordDetails_try fetch w = Inl TypeError"
  by (simp_all add: fetchWordDetails_try_def Let_def split: prod.split)

lemma fetchWordDetails_try_success:
  assumes "fetch (toLowerCase w) = Response status (JsonArray (wordData # others))"
    and "response_ok status"
    and "r_meanings wordData = Some meanings"
  shows "\<exists>details. fetchWordDetails_try fetch w = Inr (Some details)"
  using assms by (simp add: fetchWordDetails_try_def Let_def split: prod.split)

lemma not_ok_404: "\<not> response_ok 404"
  by (simp add: response_ok_def)

lemma fetch_failure_examples:
  "fetchWordDetails service_down ''cat'' = None"
  "fetchWordDetails service_500 ''cat'' = None"
  "fetchWordDetails (\<lambda>url. Response 200 NotJson) ''cat'' = None"
  "fetchWordDetails (\<lambda>url. Response 200 (JsonArray [])) ''cat'' = None"
  "fetchWordDetails (service_ok entry_no_meanings) ''cat'' = None"
  by (simp_all add: fetchWordDetails_def fetchWordDetails_try_def service_down_def
      service_500_def service_ok_def entry_no_meanings_def response_ok_def)


section \<open>Facts about rounding to a double\<close>

lemma round_half_even_error: "\<bar>of_int (round_half_even y) - y\<bar> \<le> 1 / 2"
proof -
  have "of_int \<lfloor>y\<rfloor> \<le> y" "y < of_int \<lfloor>y\<rfloor> + 1"
    by linarith+
  then show ?thesis
    by (auto simp: round_half_even_def Let_def)
qed

lemma round_half_even_of_int: "round_half_even (of_int n) = n"
  by (simp add: round_half_even_def)

lemma bitlen_powi:
  assumes "0 < p"
  shows "(2::rat) powi (bitlen p - 1) \<le> of_int p" "of_int p < (2::rat) powi bitlen p"
proof -
  from bitlen_bounds [OF assms]
  have 1: "2 ^ nat (bitlen p - 1) \<le> p" and 2: "p < 2 ^ nat (bitlen p)"
    by simp_all
  have pos: "1 \<le> bitlen p"
    using assms bitlen_eq_zero_iff [of p] bitlen_nonneg [of p] by linarith
  have "(of_int (2 ^ nat (bitlen p - 1)) :: rat) \<le> of_int p"
    using 1 by (simp only: of_int_le_iff)
  then show "(2::rat) powi (bitlen p - 1) \<le> of_int p"
    using pos by (simp add: power_int_def)
  have "(of_int p :: rat) < of_int (2 ^ nat (bitlen p))"
    using 2 by (simp only: of_int_less_iff)
  then show "of_int p < (2::rat) powi bitlen p"
    using pos by (simp add: power_int_def)
qed

lemma exponent_bounds:
  assumes "0 < a"
  shows "2 powi exponent a \<le> a" "a < 2 powi (exponent a + 1)"
proof -
  obtain p q where pq: "quotient_of a = (p, q)"
    by (cases "quotient_of a")
  then have q: "0 < q" and a: "a = of_int p / of_int q"
    by (simp_all add: quotient_of_denom_pos quotient_of_div)
  have p: "0 < p"
    using assms q a by (simp add: zero_less_divide_iff)
  define k where "k = bitlen p - bitlen q"
  have P: "(0::rat) \<le> of_int p" and Q: "(0::rat) < of_int q"
    using p q by simp_all
  have pow: "(0::rat) < 2 powi n" for n
    by (simp add: zero_less_power_int)
  have "of_int p / of_int q < (2::rat) powi bitlen p / 2 powi (bitlen q - 1)"
    using P bitlen_powi(2) [OF p] pow bitlen_powi(1) [OF q] by (rule frac_less)
  also have "\<dots> = 2 powi (k + 1)"
    unfolding k_def by (simp add: power_int_diff [symmetric] algebra_simps)
  finally have upper: "a < 2 powi (k + 1)"
    by (simp add: a)
  have "(2::rat) powi (bitlen p - 1) / 2 powi bitlen q \<le> of_int p / of_int q"
    using P bitlen_powi(1) [OF p] Q less_imp_le [OF bitlen_powi(2) [OF q]] by (rule frac_le)
  moreover have "(2::rat) powi (bitlen p - 1) / 2 powi bitlen q = 2 powi (k - 1)"
    unfolding k_def by (simp add: power_int_diff [symmetric] algebra_simps)
  ultimately have lower: "2 powi (k - 1) \<le> a"
    by (simp add: a)
  have e: "exponent a = (if 2 powi k \<le> a then k else k - 1)"
    by (simp add: exponent_def pq k_def Let_def)
  show "2 powi exponent a \<le> a"
    using lower by (simp add: e)
  show "a < 2 powi (exponent a + 1)"
    using upper by (auto simp: e not_le)
qed

lemma fl_error: "\<bar>fl x - x\<bar> \<le> \<bar>x\<bar> / 2 ^ 53"
proof (cases "x = 0")
  case True
  then show ?thesis by (simp add: fl_def)
next
  case False
  define a where "a = \<bar>x\<bar>"
  define u :: rat where "u = 2 powi (exponent a - 52)"
  define n where "n = round_half_even (a / u)"
  have a: "0 < a" using False by (simp add: a_def)
  have u: "0 < u" by (simp add: u_def zero_less_power_int)
  have fl: "fl x = sgn x * of_int n * u"
    using False by (simp add: fl_def Let_def a_def u_def n_def)
  have x: "x = sgn x * a"
    by (simp add: a_def sgn_mult_abs)
  have "fl x - x = sgn x * ((of_int n - a / u) * u)"
    using u by (subst x, subst fl) (simp add: algebra_simps)
  then have "\<bar>fl x - x\<bar> = \<bar>of_int n - a / u\<bar> * u"
    using False u by (simp add: abs_mult)
  also have "\<dots> \<le> 1 / 2 * u"
    using round_half_even_error [of "a / u"] u unfolding n_def
    by (intro mult_right_mono) simp_all
  also have "1 / 2 * u = 2 powi exponent a / 2 ^ 53"
    unfolding u_def by (simp add: power_int_diff)
  also have "\<dots> \<le> a / 2 ^ 53"
    using exponent_bounds(1) [OF a] by (simp add: divide_right_mono)
  finally show ?thesis
    by (simp add: a_def)
qed

lemma fl_of_int:
  assumes "\<bar>n\<bar> < 2 ^ 53"
  shows "fl (of_int n) = of_int n"
proof (cases "n = 0")
  case True
  then show ?thesis by (simp add: fl_def)
next
  case False
  define a :: rat where "a = \<bar>of_int n\<bar>"
  define e where "e = exponent a"
  have a_int: "a = of_int \<bar>n\<bar>" by (simp add: a_def)
  have a: "0 < a" using False by (simp add: a_def)
  have "(2::rat) powi e \<le> a"
    unfolding e_def using a by (rule exponent_bounds(1))
  also have "a < 2 powi 53"
  proof -
    have "(of_int \<bar>n\<bar> :: rat) < of_int (2 ^ 53)"
      using assms by (simp only: of_int_less_iff)
    then show ?thesis by (simp add: a_int)
  qed
  finally have "e < 53"
    by (rule power_int_le_imp_less_exp [rotated]) simp_all
  then have e: "0 \<le> 52 - e" by simp
  define u :: rat where "u = 2 powi (e - 52)"
  have u: "u = 1 / 2 ^ nat (52 - e)"
  proof -
    have "(2::rat) powi (e - 52) = 2 powi (- (52 - e))" by simp
    also have "\<dots> = inverse (2 powi (52 - e))"
      by (rule power_int_minus)
    also have "\<dots> = 1 / 2 ^ nat (52 - e)"
      using e by (simp add: power_int_def inverse_eq_divide)
    finally show ?thesis by (simp add: u_def)
  qed
  have "a / u = of_int (\<bar>n\<bar> * 2 ^ nat (52 - e))"
    by (simp add: u a_int)
  then have r: "round_half_even (a / u) = \<bar>n\<bar> * 2 ^ nat (52 - e)"
    by (simp only: round_half_even_of_int)
  have "fl (of_int n) = sgn (of_int n) * of_int (round_half_even (a / u)) * u"
    using False by (simp add: fl_def Let_def a_def u_def e_def)
  also have "\<dots> = sgn (of_int n) * of_int (\<bar>n\<bar> * 2 ^ nat (52 - e)) * (1 / 2 ^ nat (52 - e))"
    by (subst r) (simp only: u)
  also have "\<dots> = sgn (of_int n) * of_int \<bar>n\<bar>"
    by simp
  also have "\<dots> = of_int n"
    by (simp only: of_int_abs sgn_mult_abs)
  finally show ?thesis .
qed

lemma double_hours:
  assumes d: "\<bar>d\<bar> < 2 ^ 53" and m: "\<bar>m\<bar> < 2 ^ 53"
  shows "(of_int m < fl (fl (of_int d) / 3600000)) = (m * 3600000 < d)"
proof -
  define x :: rat where "x = of_int d / 3600000"
  have fd: "fl (of_int d) = of_int d"
    using d by (rule fl_of_int)
  have "(of_int \<bar>d\<bar> :: rat) < of_int (2 ^ 53)"
    using d by (simp only: of_int_less_iff)
  then have "\<bar>x\<bar> < 2 ^ 53 / 3600000"
    by (simp add: x_def)
  then have small: "\<bar>x\<bar> / 2 ^ 53 < 1 / 3600000"
    by simp
  have err: "\<bar>fl x - x\<bar> < 1 / 3600000"
    using fl_error [of x] small by linarith
  show ?thesis
  proof (cases "m * 3600000 < d")
    case True
    then have "m * 3600000 + 1 \<le> d" by simp
    then have "(of_int (m * 3600000 + 1) :: rat) \<le> of_int d"
      by (simp only: of_int_le_iff)
    then have "of_int m + 1 / 3600000 \<le> x"
      by (simp add: x_def field_simps)
    with err have "of_int m < fl x" by linarith
    with True show ?thesis by (simp add: fd x_def)
  next
    case False
    show ?thesis
    proof (cases "d = m * 3600000")
      case True
      then have "x = of_int m" by (simp add: x_def)
      then have "fl x = of_int m" using m by (simp add: fl_of_int)
      with False show ?thesis by (simp add: fd x_def)
    next
      case neq: False
      with False have "d + 1 \<le> m * 3600000" by simp
      then have "(of_int (d + 1) :: rat) \<le> of_int (m * 3600000)"
        by (simp only: of_int_le_iff)
      then have "x + 1 / 3600000 \<le> of_int m"
        by (simp add: x_def field_simps)
      with err have "fl x < of_int m" by linarith
      with False show ?thesis by (simp add: fd x_def)
    qed
  qed
qed


section \<open>Facts about the table and its queries\<close>


lemma spread_Set_fold:
  "set (foldl (\<lambda>seen x. if x \<in> set seen then seen else seen @ [x]) acc xs) = set acc \<union> set xs \<and>
   (distinct acc \<longrightarrow> distinct (foldl (\<lambda>seen x. if x \<in> set seen then seen else seen @ [x]) acc xs))"
  by (induction xs arbitrary: acc) auto

lemma set_spread_Set [simp]: "set (spread_Set xs) = set xs"
  using spread_Set_fold [of "[]" xs] by (simp add: spread_Set_def)

lemma distinct_spread_Set [simp]: "distinct (spread_Set xs)"
  using spread_Set_fold [of "[]" xs] by (simp add: spread_Set_def)

lemma filter_key_unique:
  "distinct (map f xs) \<Longrightarrow>
   filter (\<lambda>x. f x = k) xs = (case find (\<lambda>x. f x = k) xs of None \<Rightarrow> [] | Some x \<Rightarrow> [x])"
proof (induction xs)
  case Nil
  then show ?case by simp
next
  case (Cons a xs)
  show ?case
  proof (cases "f a = k")
    case True
    with Cons.prems have "\<forall>x\<in>set xs. f x \<noteq> k" by (auto simp: image_iff)
    then have "filter (\<lambda>x. f x = k) xs = []" by (simp add: filter_empty_conv)
    with True show ?thesis by simp
  next
    case False
    with Cons show ?thesis by simp
  qed
qed

lemma find_key_mem: "find (\<lambda>x. f x = k) xs = Some x \<Longrightarrow> x \<in> set xs \<and> f x = k"
  by (induction xs) (auto split: if_splits)

lemma find_key_None: "find (\<lambda>x. f x = k) xs = None \<longleftrightarrow> k \<notin> set (map f xs)"
  by (induction xs) auto

lemma find_key_unique:
  "distinct (map f xs) \<Longrightarrow> x \<in> set xs \<Longrightarrow> f x = k \<Longrightarrow> find (\<lambda>x. f x = k) xs = Some x"
  by (induction xs) (auto simp: rev_image_eqI)

lemma find_snoc:
  "find P (xs @ [y]) = (case find P xs of None \<Rightarrow> if P y then Some y else None | Some x \<Rightarrow> Some x)"
  by (induction xs) auto

lemma row_of_mem: "row_of tbl w = Some r \<Longrightarrow> r \<in> set tbl \<and> word r = w"
  unfolding row_of_def by (rule find_key_mem)

lemma row_of_None: "row_of tbl w = None \<longleftrightarrow> w \<notin> set (map word tbl)"
  unfolding row_of_def by (rule find_key_None)

lemma select_no_fault:
  "wf_table tbl \<Longrightarrow> select_eq_word_maybeSingle False w tbl = Inr (row_of tbl w)"
  by (simp add: select_eq_word_maybeSingle_def wf_table_def filter_key_unique row_of_def
      split: option.splits)

lemma select_faulted: "select_eq_word_maybeSingle True w tbl = Inl TransportError"
  by (simp add: select_eq_word_maybeSingle_def)

lemma apply_patch_keys [simp]:
  "word (apply_patch p r) = word r" "word_id (apply_patch p r) = word_id r"
  "created_at (apply_patch p r) = created_at r"
  by (simp_all add: apply_patch_def)

lemma row_of_map:
  "(\<And>x. word (g x) = word x) \<Longrightarrow> row_of (map g tbl) v = map_option g (row_of tbl v)"
  unfolding row_of_def by (induction tbl) auto

lemma update_by_id_table:
  fixes tbl :: "Word list" and i :: uuid and p :: patch
  assumes "wf_table tbl"
  defines "tbl' \<equiv> map (\<lambda>x. if word_id x = i then apply_patch p x else x) tbl"
  shows "wf_table tbl'"
    and "row_of tbl w = Some r \<Longrightarrow> word_id r = i \<Longrightarrow> row_of tbl' w = Some (apply_patch p r)"
    and "row_of tbl w = Some r \<Longrightarrow> word_id r = i \<Longrightarrow> v \<noteq> w \<Longrightarrow> row_of tbl' v = row_of tbl v"
proof -
  have words: "map word tbl' = map word tbl" and ids: "map word_id tbl' = map word_id tbl"
    by (simp_all add: tbl'_def o_def)
  with assms(1) show "wf_table tbl'"
    by (simp add: wf_table_def)
  have row: "row_of tbl' u = map_option (\<lambda>x. if word_id x = i then apply_patch p x else x) (row_of tbl u)"
    for u
    unfolding tbl'_def by (rule row_of_map) simp
  show "row_of tbl w = Some r \<Longrightarrow> word_id r = i \<Longrightarrow> row_of tbl' w = Some (apply_patch p r)"
    by (simp add: row)
  show "row_of tbl' v = row_of tbl v" if r: "row_of tbl w = Some r" "word_id r = i" and "v \<noteq> w"
  proof (cases "row_of tbl v")
    case None
    then show ?thesis by (simp add: row)
  next
    case (Some x)
    have "word_id x \<noteq> i"
    proof
      assume "word_id x = i"
      moreover have "x \<in> set tbl" "r \<in> set tbl" "word x = v" "word r = w"
        using Some r row_of_mem by blast+
      moreover have "inj_on word_id (set tbl)"
        using assms(1) by (simp add: wf_table_def distinct_map)
      ultimately have "x = r"
        using r(2) by (auto dest: inj_onD)
      with \<open>word x = v\<close> \<open>word r = w\<close> \<open>v \<noteq> w\<close> show False by simp
    qed
    with Some show ?thesis by (simp add: row)
  qed
qed

lemma update_no_fault:
  assumes "wf_table tbl" "row_of tbl w = Some r" "case set_frequency p of None \<Rightarrow> True | Some f \<Rightarrow> int4 f"
  shows "update_eq_id_single False p (word_id r) tbl =
     Inr (apply_patch p r, map (\<lambda>x. if word_id x = word_id r then apply_patch p x else x) tbl)"
proof -
  have "r \<in> set tbl" using assms(2) row_of_mem by blast
  then have "find (\<lambda>x. word_id x = word_id r) tbl = Some r"
    using assms(1) by (simp add: wf_table_def find_key_unique)
  then have "filter (\<lambda>x. word_id x = word_id r) tbl = [r]"
    using assms(1) by (simp add: wf_table_def filter_key_unique)
  with assms(3) show ?thesis
    by (auto simp: update_eq_id_single_def split: option.splits)
qed

lemma update_result:
  assumes "wf_table tbl" "row_of tbl w = Some r"
    and "update_eq_id_single fault p (word_id r) tbl = Inr (data, tbl')"
  shows "data = apply_patch p r \<and>
     tbl' = map (\<lambda>x. if word_id x = word_id r then apply_patch p x else x) tbl"
proof -
  have "r \<in> set tbl" using assms(2) row_of_mem by blast
  then have "find (\<lambda>x. word_id x = word_id r) tbl = Some r"
    using assms(1) by (simp add: wf_table_def find_key_unique)
  then have "filter (\<lambda>x. word_id x = word_id r) tbl = [r]"
    using assms(1) by (simp add: wf_table_def filter_key_unique)
  with assms(3) show ?thesis
    by (auto simp: update_eq_id_single_def split: if_splits)
qed

lemma insert_result:
  assumes "wf_table tbl" "insert_single fault i now w f tbl = Inr (data, tbl')"
  shows "tbl' = tbl @ [data] \<and> word data = w \<and> frequency data = f \<and> word_id data = i \<and>
     row_of tbl w = None \<and> wf_table tbl' \<and> row_of tbl' w = Some data \<and>
     (\<forall>v. v \<noteq> w \<longrightarrow> row_of tbl' v = row_of tbl v)"
proof -
  from assms(2) have fresh: "w \<notin> set (map word tbl)" "i \<notin> set (map word_id tbl)"
    and data: "data = \<lparr>word_id = i, word = w, frequency = f, created_at = now,
                  pronunciation = None, pronunciations = None, examples = None,
                  definitions = None, last_fetched_at = None\<rparr>"
    and tbl': "tbl' = tbl @ [data]"
    by (auto simp: insert_single_def Let_def split: if_splits)
  have none: "row_of tbl w = None"
    using fresh(1) by (simp add: row_of_None)
  have "wf_table tbl'"
    using assms(1) fresh by (simp add: wf_table_def tbl' data)
  moreover have "row_of tbl' v = (case row_of tbl v of None \<Rightarrow> if v = w then Some data else None
      | Some x \<Rightarrow> Some x)" for v
    by (auto simp: row_of_def tbl' find_snoc data split: option.splits)
  ultimately show ?thesis
    using none tbl' data by (auto split: option.splits)
qed
section \<open>Facts about the calls in flight\<close>

lemma table_log_request [simp]: "table (log_request q st) = table st"
  by (simp add: log_request_def)

lemma idf_row: "row_of tbl' v = row_of tbl v \<Longrightarrow> idf tbl' v = idf tbl v"
  by (simp add: idf_def)


lemma task_ok_cong: "idf tbl' v = idf tbl v \<Longrightarrow> task_ok tbl0 tbl' v t = task_ok tbl0 tbl v t"
  by (cases "(tbl0, tbl, v, t)" rule: task_ok.cases) simp_all

lemma task_sound_mono: "task_sound tbl c t \<Longrightarrow> keys tbl \<subseteq> keys tbl' \<Longrightarrow> task_sound tbl' c t"
  by (cases "(tbl, c, t)" rule: task_sound.cases) auto

lemma keys_unique:
  assumes "wf_table tbl" "x \<in> set tbl" "(word_id x, v) \<in> keys tbl"
  shows "word x = v"
proof -
  from assms(3) obtain y where y: "y \<in> set tbl" "word_id y = word_id x" "word y = v"
    by (auto simp: keys_def)
  have "inj_on word_id (set tbl)"
    using assms(1) by (simp add: wf_table_def distinct_map)
  with y assms(2) have "y = x"
    by (auto dest: inj_onD)
  with y show ?thesis by simp
qed

lemma select_Some:
  "select_eq_word_maybeSingle fault w tbl = Inr (Some r) \<Longrightarrow> r \<in> set tbl \<and> word r = w"
proof -
  assume "select_eq_word_maybeSingle fault w tbl = Inr (Some r)"
  then have "filter (\<lambda>r. word r = w) tbl = [r]"
    by (auto simp: select_eq_word_maybeSingle_def split: if_splits list.splits)
  then have "r \<in> set (filter (\<lambda>r. word r = w) tbl)"
    by simp
  then show ?thesis by simp
qed

lemma update_by_id:
  assumes "update_eq_id_single fault p i tbl = Inr (data, tbl')"
  shows "\<exists>x\<in>set tbl. word_id x = i \<and> data = apply_patch p x \<and>
     tbl' = map (\<lambda>y. if word_id y = i then apply_patch p y else y) tbl"
proof -
  from assms obtain x where x: "filter (\<lambda>r. word_id r = i) tbl = [x]"
    and data: "data = apply_patch p x"
    and tbl': "tbl' = map (\<lambda>y. if word_id y = i then apply_patch p y else y) tbl"
    by (auto simp: update_eq_id_single_def split: if_splits list.splits)
  from x have "x \<in> set (filter (\<lambda>r. word_id r = i) tbl)"
    by simp
  then have "x \<in> set tbl" "word_id x = i"
    by simp_all
  with data tbl' show ?thesis by blast
qed

lemma row_of_unique: "wf_table tbl \<Longrightarrow> x \<in> set tbl \<Longrightarrow> row_of tbl (word x) = Some x"
  unfolding row_of_def wf_table_def by (simp add: find_key_unique)

lemma map_patch_table:
  fixes tbl :: "Word list" and p :: patch
  assumes wf: "wf_table tbl" and x: "x \<in> set tbl"
  defines "tbl' \<equiv> map (\<lambda>y. if word_id y = word_id x then apply_patch p y else y) tbl"
  shows "wf_table tbl'"
    and "keys tbl' = keys tbl"
    and "row_of tbl' (word x) = Some (apply_patch p x)"
    and "v \<noteq> word x \<Longrightarrow> row_of tbl' v = row_of tbl v"
proof -
  note row = row_of_unique [OF wf x]
  show "wf_table tbl'"
    unfolding tbl'_def using wf by (rule update_by_id_table(1))
  have "map (\<lambda>r. (word_id r, word r)) tbl' = map (\<lambda>r. (word_id r, word r)) tbl"
    by (simp add: tbl'_def o_def)
  then show "keys tbl' = keys tbl"
    by (simp only: keys_def)
  show "row_of tbl' (word x) = Some (apply_patch p x)"
    unfolding tbl'_def using wf row refl by (rule update_by_id_table(2))
  show "row_of tbl' v = row_of tbl v" if "v \<noteq> word x"
    unfolding tbl'_def using wf row refl that by (rule update_by_id_table(3))
qed

lemma idf_map:
  assumes "\<And>x. word (g x) = word x" "\<And>x. word_id (g x) = word_id x"
    "\<And>x. frequency (g x) = frequency x"
  shows "idf (map g tbl) v = idf tbl v"
  by (simp add: idf_def row_of_map [of g, OF assms(1)] option.map_comp o_def assms)

lemma keys_map:
  assumes "\<And>x. word (g x) = word x" "\<And>x. word_id (g x) = word_id x"
  shows "keys (map g tbl) = keys tbl"
  by (simp add: keys_def o_def assms)

lemma wf_table_map:
  assumes "\<And>x. word (g x) = word x" "\<And>x. word_id (g x) = word_id x"
  shows "wf_table (map g tbl) = wf_table tbl"
  by (simp add: wf_table_def o_def assms)

lemma upsert_step_sound:
  assumes wf: "wf_table (table st)"
    and sound: "task_sound (table st) (Upsert w) t"
    and step: "upsert_step env w t st = (t', st')"
  shows "wf_table (table st') \<and> keys (table st) \<subseteq> keys (table st') \<and>
     task_sound (table st') (Upsert w) t' \<and>
     (\<forall>v. v \<noteq> toLowerCase w \<longrightarrow> row_of (table st') v = row_of (table st) v)"
proof (cases t)
  case Start
  show ?thesis
  proof (cases "select_eq_word_maybeSingle (select_fault env) (toLowerCase w) (table st)")
    case (Inl e)
    with Start step wf show ?thesis
      by (auto simp: Let_def)
  next
    case (Inr found)
    show ?thesis
    proof (cases found)
      case None
      with Inr Start step wf show ?thesis
        by (auto simp: Let_def)
    next
      case (Some r)
      from select_Some [OF Inr [unfolded Some]]
      have "(word_id r, toLowerCase w) \<in> keys (table st)"
        by (auto simp: keys_def)
      with Some Inr Start step wf show ?thesis
        by (auto simp: Let_def)
    qed
  qed
next
  case (Found r)
  let ?p = "\<lparr>set_frequency = Some (frequency r + 1),
              set_pronunciation = None, set_pronunciations = None,
              set_definitions = None, set_examples = None,
              set_last_fetched_at = None\<rparr>"
  show ?thesis
  proof (cases "update_eq_id_single (write_fault env) ?p (word_id r) (table st)")
    case (Inl e)
    with Found step wf show ?thesis
      by (auto simp: Let_def)
  next
    case (Inr res)
    obtain data tbl' where res: "res = (data, tbl')" by (cases res)
    from update_by_id [OF Inr [unfolded res]] obtain x where x: "x \<in> set (table st)"
      and id: "word_id x = word_id r" and data: "data = apply_patch ?p x"
      and tbl': "tbl' = map (\<lambda>y. if word_id y = word_id x then apply_patch ?p y else y) (table st)"
      by auto
    have st': "t' = Done (Some data)" "table st' = tbl'"
      using Found step Inr res by (auto simp: Let_def)
    from sound Found id have "(word_id x, toLowerCase w) \<in> keys (table st)"
      by simp
    with wf x have word: "word x = toLowerCase w"
      by (rule keys_unique)
    note facts = map_patch_table [OF wf x, where p = "?p", folded tbl']
    have "\<forall>v. v \<noteq> toLowerCase w \<longrightarrow> row_of tbl' v = row_of (table st) v"
      using facts(4) word by simp
    moreover have "word data = toLowerCase w"
      using word by (simp add: data)
    ultimately show ?thesis
      using facts(1,2) by (simp add: st')
  qed
next
  case NotFound
  show ?thesis
  proof (cases "insert_single (write_fault env) (new_id env) (db_now env) (toLowerCase w) 1
      (table st)")
    case (Inl e)
    with NotFound step wf show ?thesis
      by (auto simp: Let_def)
  next
    case (Inr res)
    obtain data tbl' where res: "res = (data, tbl')" by (cases res)
    have st': "t' = Done (Some data)" "table st' = tbl'"
      using NotFound step Inr res by (auto simp: Let_def)
    from insert_result [OF wf Inr [unfolded res]]
    have app: "tbl' = table st @ [data]" and word: "word data = toLowerCase w"
      and wf': "wf_table tbl'"
      and frame: "\<forall>v. v \<noteq> toLowerCase w \<longrightarrow> row_of tbl' v = row_of (table st) v"
      by blast+
    have "keys (table st) \<subseteq> keys tbl'"
      unfolding app by (auto simp: keys_def)
    with word wf' frame show ?thesis
      unfolding st' by simp
  qed
next
  case (Done result)
  with step sound wf show ?thesis by auto
qed

lemma updateWordDetails_sound:
  assumes wf: "wf_table (table st)"
    and step: "updateWordDetails fault now wordId details st = (result, st')"
  shows "wf_table (table st') \<and> keys (table st') = keys (table st) \<and>
     (\<forall>v. idf (table st') v = idf (table st) v)"
proof -
  let ?p = "\<lparr>set_frequency = None,
              set_pronunciation = arg_pronunciation details,
              set_pronunciations = arg_pronunciations details,
              set_definitions = arg_definitions details,
              set_examples = arg_examples details,
              set_last_fetched_at = Some now\<rparr>"
  let ?g = "\<lambda>y. if word_id y = wordId then apply_patch ?p y else y"
  show ?thesis
  proof (cases "update_eq_id_single fault ?p wordId (table st)")
    case (Inl e)
    with step wf show ?thesis
      by (auto simp: updateWordDetails_def Let_def)
  next
    case (Inr res)
    obtain data tbl' where res: "res = (data, tbl')" by (cases res)
    from update_by_id [OF Inr [unfolded res]] have tbl': "tbl' = map ?g (table st)"
      by auto
    have st': "table st' = tbl'"
      using step Inr res by (auto simp: updateWordDetails_def Let_def)
    have g: "word (?g y) = word y" "word_id (?g y) = word_id y" "frequency (?g y) = frequency y"
      for y
      by (simp_all add: apply_patch_def)
    have "wf_table tbl'"
      unfolding tbl' using wf wf_table_map [of ?g, OF g(1,2)] by simp
    moreover have "keys tbl' = keys (table st)"
      unfolding tbl' by (rule keys_map [of ?g, OF g(1,2)])
    moreover have "idf tbl' v = idf (table st) v" for v
      unfolding tbl' by (rule idf_map [of ?g, OF g])
    ultimately show ?thesis
      by (simp add: st')
  qed
qed

lemma call_step_sound:
  assumes wf: "wf_table (table st)"
    and sound: "task_sound (table st) c t"
    and step: "call_step env c t st = (t', st')"
  shows "wf_table (table st') \<and> keys (table st) \<subseteq> keys (table st') \<and>
     task_sound (table st') c t' \<and>
     (\<forall>v. v \<notin> set (target c) \<longrightarrow> idf (table st') v = idf (table st) v)"
proof (cases c)
  case (Upsert w)
  with step have "upsert_step env w t st = (t', st')"
    by simp
  from upsert_step_sound [OF wf sound [unfolded Upsert] this]
  have wf': "wf_table (table st')" and keys: "keys (table st) \<subseteq> keys (table st')"
    and sound': "task_sound (table st') (Upsert w) t'"
    and frame: "\<And>v. v \<noteq> toLowerCase w \<Longrightarrow> row_of (table st') v = row_of (table st) v"
    by blast+
  have "idf (table st') v = idf (table st) v" if "v \<noteq> toLowerCase w" for v
    using frame [OF that] by (rule idf_row)
  with wf' keys sound' show ?thesis
    unfolding Upsert by simp
next
  case (Enrich fault now wordId details)
  show ?thesis
  proof (cases "t = Start")
    case True
    obtain result st1 where upd: "updateWordDetails fault now wordId details st = (result, st1)"
      by (cases "updateWordDetails fault now wordId details st")
    with step Enrich True have "st' = st1"
      by simp
    with updateWordDetails_sound [OF wf upd] Enrich show ?thesis
      by simp
  next
    case False
    with step Enrich have "t' = t \<and> st' = st"
      by (cases t) simp_all
    with wf Enrich show ?thesis
      by simp
  qed
qed

lemma upsert_step_ok:
  assumes wf: "wf_table (table st)"
    and ok: "task_ok tbl0 (table st) (toLowerCase w) t"
    and step: "upsert_step env w t st = (t', st')"
  shows "task_ok tbl0 (table st') (toLowerCase w) t'"
proof (cases t)
  case Start
  show ?thesis
  proof (cases "select_fault env")
    case True
    with Start step ok show ?thesis
      by (auto simp: Let_def select_faulted)
  next
    case False
    with Start step ok wf show ?thesis
      by (auto simp: Let_def select_no_fault idf_def split: option.splits)
  qed
next
  case (Found r)
  let ?p = "\<lparr>set_frequency = Some (frequency r + 1),
              set_pronunciation = None, set_pronunciations = None,
              set_definitions = None, set_examples = None,
              set_last_fetched_at = None\<rparr>"
  from ok Found have r0: "idf tbl0 (toLowerCase w) = Some (word_id r, frequency r)"
    and r: "idf (table st) (toLowerCase w) = Some (word_id r, frequency r)"
    by simp_all
  from r obtain y where y: "row_of (table st) (toLowerCase w) = Some y"
    "word_id y = word_id r" "frequency y = frequency r"
    by (auto simp: idf_def)
  have y_mem: "y \<in> set (table st)" "word y = toLowerCase w"
    using row_of_mem [OF y(1)] by simp_all
  show ?thesis
  proof (cases "update_eq_id_single (write_fault env) ?p (word_id r) (table st)")
    case (Inl e)
    with Found step ok show ?thesis
      by (auto simp: Let_def)
  next
    case (Inr res)
    obtain data tbl' where res: "res = (data, tbl')" by (cases res)
    from update_by_id [OF Inr [unfolded res]] obtain x where x: "x \<in> set (table st)"
      and id: "word_id x = word_id r" and data: "data = apply_patch ?p x"
      and tbl': "tbl' = map (\<lambda>y. if word_id y = word_id x then apply_patch ?p y else y) (table st)"
      by auto
    have "inj_on word_id (set (table st))"
      using wf by (simp add: wf_table_def distinct_map)
    moreover have "word_id x = word_id y"
      using id y(2) by simp
    ultimately have "x = y"
      using x y_mem(1) by (simp add: inj_on_eq_iff)
    have st': "t' = Done (Some data)" "table st' = tbl'"
      using Found step Inr res by (auto simp: Let_def)
    have "row_of tbl' (toLowerCase w) = Some data"
      using map_patch_table(3) [OF wf x, where p = "?p", folded tbl'] \<open>x = y\<close> y_mem(2) data by simp
    then have "idf tbl' (toLowerCase w) = Some (word_id data, frequency data)"
      by (simp add: idf_def)
    moreover have "frequency data = frequency r + 1"
      by (simp add: data apply_patch_def)
    ultimately show ?thesis
      using r0 unfolding st' by simp
  qed
next
  case NotFound
  with ok have r0: "idf tbl0 (toLowerCase w) = None"
    by simp
  show ?thesis
  proof (cases "insert_single (write_fault env) (new_id env) (db_now env) (toLowerCase w) 1
      (table st)")
    case (Inl e)
    with NotFound step ok show ?thesis
      by (auto simp: Let_def)
  next
    case (Inr res)
    obtain data tbl' where res: "res = (data, tbl')" by (cases res)
    have st': "t' = Done (Some data)" "table st' = tbl'"
      using NotFound step Inr res by (auto simp: Let_def)
    from insert_result [OF wf Inr [unfolded res]]
    have "row_of tbl' (toLowerCase w) = Some data" and "frequency data = 1"
      by blast+
    then have "idf tbl' (toLowerCase w) = Some (word_id data, frequency data)"
      and "frequency data = 1"
      by (simp_all add: idf_def)
    with r0 show ?thesis
      unfolding st' by simp
  qed
next
  case (Done result)
  with step ok show ?thesis by auto
qed

lemma run_step_inv:
  assumes inv: "batch_inv calls tbl0 s"
  shows "batch_inv calls tbl0 (run_step env calls i s)"
proof (cases "i < length calls")
  case False
  with inv show ?thesis
    by (simp add: run_step_def split: prod.splits)
next
  case True
  obtain tasks st where s: "s = (tasks, st)" by (cases s)
  obtain t' st' where step: "call_step (env i) (calls ! i) (tasks i) st = (t', st')"
    by (cases "call_step (env i) (calls ! i) (tasks i) st")
  have s': "run_step env calls i s = (tasks(i := t'), st')"
    using True by (simp add: run_step_def s step)
  from inv have wf: "wf_table (table st)"
    and sound: "\<And>j. j < length calls \<Longrightarrow> task_sound (table st) (calls ! j) (tasks j)"
    and ok: "\<And>j v. j < length calls \<Longrightarrow> alone calls j \<Longrightarrow> v \<in> set (target (calls ! j)) \<Longrightarrow>
        task_ok tbl0 (table st) v (tasks j)"
    by (simp_all add: batch_inv_def s)
  from call_step_sound [OF wf sound [OF True] step]
  have wf': "wf_table (table st')" and keys: "keys (table st) \<subseteq> keys (table st')"
    and sound': "task_sound (table st') (calls ! i) t'"
    and frame: "\<And>v. v \<notin> set (target (calls ! i)) \<Longrightarrow> idf (table st') v = idf (table st) v"
    by blast+
  have 1: "task_sound (table st') (calls ! j) ((tasks(i := t')) j)" if "j < length calls" for j
  proof (cases "j = i")
    case True
    with sound' show ?thesis by simp
  next
    case False
    from sound [OF that] keys have "task_sound (table st') (calls ! j) (tasks j)"
      by (rule task_sound_mono)
    with False show ?thesis by simp
  qed
  have 2: "task_ok tbl0 (table st') v ((tasks(i := t')) j)"
    if j: "j < length calls" "alone calls j" "v \<in> set (target (calls ! j))" for j v
  proof (cases "j = i")
    case True
    from j(3) True obtain w where w: "calls ! i = Upsert w" "v = toLowerCase w"
      by (cases "calls ! i") auto
    from step w have "upsert_step (env i) w (tasks i) st = (t', st')"
      by simp
    with wf ok [OF j] True w have "task_ok tbl0 (table st') (toLowerCase w) t'"
      by (intro upsert_step_ok [of st tbl0 w "tasks i" "env i" t' st']) simp_all
    with True w show ?thesis by simp
  next
    case False
    from j(2) \<open>i < length calls\<close> False
    have "set (target (calls ! i)) \<inter> set (target (calls ! j)) = {}"
      by (auto simp: alone_def)
    with j(3) have "v \<notin> set (target (calls ! i))"
      by blast
    from task_ok_cong [OF frame [OF this], of tbl0 "tasks j"] ok [OF j] False
    show ?thesis by simp
  qed
  from wf' 1 2 show ?thesis
    by (simp add: batch_inv_def s')
qed

lemma fold_run_step_inv:
  "batch_inv calls tbl0 s \<Longrightarrow> batch_inv calls tbl0 (fold (run_step env calls) order s)"
  by (induction order arbitrary: s) (simp_all add: run_step_inv)
lemma upsert_step_rank:
  "upsert_step env w t st = (t', st') \<Longrightarrow> min 2 (Suc (rank t)) \<le> rank t'"
proof (cases t)
  case Start
  assume "upsert_step env w t st = (t', st')"
  with Start show ?thesis
    by (cases "select_eq_word_maybeSingle (select_fault env) (toLowerCase w) (table (log_request (Select_word (toLowerCase w)) st))")
       (auto simp: Let_def split: option.splits)
next
  case (Found r)
  assume "upsert_step env w t st = (t', st')"
  with Found show ?thesis
    by (auto simp: Let_def split: sum.splits)
next
  case NotFound
  assume "upsert_step env w t st = (t', st')"
  with NotFound show ?thesis
    by (auto simp: Let_def split: sum.splits)
next
  case (Done x)
  assume "upsert_step env w t st = (t', st')"
  with Done show ?thesis by auto
qed

lemma run_step_rank:
  assumes "v < length calls" "calls ! v = Upsert w"
  shows "min 2 (rank (fst s v) + (if v = i then 1 else 0)) \<le>
     rank (fst (run_step env calls i s) v)"
proof -
  obtain tasks st where s: "s = (tasks, st)" by (cases s)
  show ?thesis
  proof (cases "v = i")
    case False
    then show ?thesis
      by (simp add: run_step_def s split: prod.splits)
  next
    case True
    obtain t' st' where step: "upsert_step (env i) w (tasks i) st = (t', st')"
      by (cases "upsert_step (env i) w (tasks i) st")
    from upsert_step_rank [OF step] True assms show ?thesis
      by (simp add: run_step_def s step)
  qed
qed

lemma fold_run_step_rank:
  assumes "v < length calls" "calls ! v = Upsert w"
  shows "min 2 (rank (fst s v) + count_list order v) \<le>
     rank (fst (fold (run_step env calls) order s) v)"
proof (induction order arbitrary: s)
  case Nil
  then show ?case by simp
next
  case (Cons i order)
  define a where "a = rank (fst s v)"
  define b where "b = rank (fst (run_step env calls i s) v)"
  define c where "c = rank (fst (fold (run_step env calls) (i # order) s) v)"
  define n where "n = count_list order v"
  have 2: "min 2 (b + n) \<le> c"
    unfolding b_def c_def n_def using Cons.IH [of "run_step env calls i s"] by simp
  show ?case
  proof (cases "v = i")
    case True
    have "min 2 (a + 1) \<le> b"
      unfolding a_def b_def using run_step_rank [OF assms, of s i env] True by simp
    with 2 have "min 2 (a + (n + 1)) \<le> c"
      by arith
    with True show ?thesis
      by (simp add: a_def c_def n_def del: fold_simps)
  next
    case False
    have "min 2 a \<le> b"
      unfolding a_def b_def using run_step_rank [OF assms, of s i env] False by simp
    with 2 have "min 2 (a + n) \<le> c"
      by arith
    with False show ?thesis
      by (simp add: a_def c_def n_def del: fold_simps)
  qed
qed

lemma rank_2: "2 \<le> rank t \<Longrightarrow> \<exists>result. t = Done result"
  by (cases t) simp_all

lemma count_list_pos: "x \<in> set xs \<Longrightarrow> 1 \<le> count_list xs x"
  using count_list_0_iff [of xs x] by (cases "count_list xs x") simp_all

lemma promise_all_inv:
  assumes wf: "wf_table (table st)"
    and run: "promise_all env schedule uniqueWords others st = (tasks, st')"
  shows "batch_inv (map Upsert uniqueWords @ others) (table st) (tasks, st')"
    and "\<forall>i<length uniqueWords. \<exists>result. tasks i = Done result"
proof -
  let ?calls = "map Upsert uniqueWords @ others"
  let ?order = "schedule @ [0..<length uniqueWords] @ [0..<length uniqueWords]"
  have init: "batch_inv ?calls (table st) (\<lambda>i. Start, st)"
    using wf by (simp add: batch_inv_def idf_def)
  then have "batch_inv ?calls (table st) (fold (run_step env ?calls) ?order (\<lambda>i. Start, st))"
    by (rule fold_run_step_inv)
  then show "batch_inv ?calls (table st) (tasks, st')"
    using run by (simp add: promise_all_def)
  show "\<forall>i<length uniqueWords. \<exists>result. tasks i = Done result"
  proof (intro allI impI)
    fix i assume i: "i < length uniqueWords"
    then have "i \<in> set [0..<length uniqueWords]"
      by simp
    from count_list_pos [OF this] have "2 \<le> count_list ?order i"
      by simp
    then have "2 \<le> min 2 (rank (fst (\<lambda>i. Start, st) i) + count_list ?order i)"
      by simp
    also have "\<dots> \<le> rank (fst (fold (run_step env ?calls) ?order (\<lambda>i. Start, st)) i)"
      using i by (intro fold_run_step_rank [where w = "uniqueWords ! i"]) (simp_all add: nth_append)
    finally have "2 \<le> rank (tasks i)"
      using run by (simp add: promise_all_def)
    then show "\<exists>result. tasks i = Done result"
      by (rule rank_2)
  qed
qed

lemma partition_results:
  assumes "\<forall>i\<in>set js. \<forall>r. f i = Some r \<longrightarrow> word r = g i"
  shows "map word (concat (map (\<lambda>(w, result). case result of None \<Rightarrow> [] | Some r \<Rightarrow> [r])
             (map (\<lambda>i. (g i, f i)) js))) = map g (filter (\<lambda>i. f i \<noteq> None) js)"
    and "concat (map (\<lambda>(w, result). case result of None \<Rightarrow> [w] | Some r \<Rightarrow> [])
             (map (\<lambda>i. (g i, f i)) js)) = map g (filter (\<lambda>i. f i = None) js)"
  using assms by (induction js) (auto split: option.splits)

lemma lower_spread_Set: "\<forall>w\<in>set (spread_Set (map toLowerCase ws)). toLowerCase w = w"
  by (auto simp: toLowerCase_idem)

lemma batch_result:
  assumes wf: "wf_table (table st)"
    and res: "addOrUpdateWordsConcurrently env schedule others ws st = ((success, failed), st')"
  shows "\<exists>tasks.
     promise_all env schedule (spread_Set (map toLowerCase ws)) others st = (tasks, st') \<and>
     batch_inv (map Upsert (spread_Set (map toLowerCase ws)) @ others) (table st) (tasks, st') \<and>
     (\<forall>i<length (spread_Set (map toLowerCase ws)). \<exists>result. tasks i = Done result) \<and>
     map word success =
       map ((!) (spread_Set (map toLowerCase ws)))
         (filter (\<lambda>i. task_result (tasks i) \<noteq> None)
            [0..<length (spread_Set (map toLowerCase ws))]) \<and>
     failed =
       map ((!) (spread_Set (map toLowerCase ws)))
         (filter (\<lambda>i. task_result (tasks i) = None)
            [0..<length (spread_Set (map toLowerCase ws))])"
proof -
  let ?us = "spread_Set (map toLowerCase ws)"
  let ?calls = "map Upsert ?us @ others"
  obtain tasks st1 where run: "promise_all env schedule ?us others st = (tasks, st1)"
    by (cases "promise_all env schedule ?us others st")
  from res run have st': "st1 = st'"
    and success: "success = concat (map (\<lambda>(w, result). case result of None \<Rightarrow> [] | Some r \<Rightarrow> [r])
             (map (\<lambda>i. (?us ! i, task_result (tasks i))) [0..<length ?us]))"
    and failed: "failed = concat (map (\<lambda>(w, result). case result of None \<Rightarrow> [w] | Some r \<Rightarrow> [])
             (map (\<lambda>i. (?us ! i, task_result (tasks i))) [0..<length ?us]))"
    by (simp_all add: addOrUpdateWordsConcurrently_def Let_def)
  note inv = promise_all_inv [OF wf run]
  have words: "\<forall>i\<in>set [0..<length ?us]. \<forall>r. task_result (tasks i) = Some r \<longrightarrow> word r = ?us ! i"
  proof (intro ballI allI impI)
    fix i r assume "i \<in> set [0..<length ?us]" and r: "task_result (tasks i) = Some r"
    then have i: "i < length ?us" by simp
    with inv(2) obtain result where "tasks i = Done result" by blast
    with r have t: "tasks i = Done (Some r)" by simp
    from i have call: "?calls ! i = Upsert (?us ! i)"
      by (simp add: nth_append)
    from i have "i < length ?calls" by simp
    with inv(1) have "task_sound (table st1) (?calls ! i) (tasks i)"
      by (simp add: batch_inv_def)
    then have "word r = toLowerCase (?us ! i)"
      unfolding call t by simp
    moreover have "toLowerCase (?us ! i) = ?us ! i"
      using lower_spread_Set [of ws] i nth_mem [OF i] by blast
    ultimately show "word r = ?us ! i" by simp
  qed
  show ?thesis
    using inv run partition_results [OF words] unfolding success failed st'
    by (intro exI [of _ tasks]) simp
qed

lemma partition_nth:
  assumes "distinct us"
  shows "distinct (map ((!) us) (filter P [0..<length us]) @
                   map ((!) us) (filter (\<lambda>i. \<not> P i) [0..<length us]))"
    and "set (map ((!) us) (filter P [0..<length us]) @
              map ((!) us) (filter (\<lambda>i. \<not> P i) [0..<length us])) = set us"
proof -
  have inj: "inj_on ((!) us) (set (filter Q [0..<length us]))" for Q
    using assms by (intro inj_on_nth) simp_all
  have "set (map ((!) us) (filter P [0..<length us])) \<inter>
      set (map ((!) us) (filter (\<lambda>i. \<not> P i) [0..<length us])) = {}"
    using assms by (auto simp: nth_eq_iff_index_eq)
  with inj show "distinct (map ((!) us) (filter P [0..<length us]) @
                   map ((!) us) (filter (\<lambda>i. \<not> P i) [0..<length us]))"
    by (simp add: distinct_map)
  have "set us = (!) us ` {0..<length us}"
    by (auto simp: set_conv_nth)
  also have "\<dots> = (!) us ` ({i \<in> {0..<length us}. P i} \<union> {i \<in> {0..<length us}. \<not> P i})"
    by (rule arg_cong [where f = "(`) ((!) us)"]) auto
  finally show "set (map ((!) us) (filter P [0..<length us]) @
              map ((!) us) (filter (\<lambda>i. \<not> P i) [0..<length us])) = set us"
    by (simp add: image_Un)
qed




section \<open>Facts about single calls\<close>

text \<open>
  A call of \<^verbatim>\<open>addOrUpdateWord\<close> is two steps of \<open>upsert_step\<close>; it succeeds when no
  request of it fails, the identifier for a new row is fresh and the incremented frequency
  fits the column; and the operations keep the table well formed.
\<close>

lemma addOrUpdateWord_steps:
  "addOrUpdateWord env w st =
     (case upsert_step env w Start st of
        (t1, st1) \<Rightarrow> (case upsert_step env w t1 st1 of (t2, st2) \<Rightarrow> (task_result t2, st2)))"
proof (cases "select_eq_word_maybeSingle (select_fault env) (toLowerCase w) (table st)")
  case (Inl e)
  then show ?thesis
    by (simp add: addOrUpdateWord_def Let_def)
next
  case (Inr found)
  show ?thesis
  proof (cases found)
    case None
    with Inr show ?thesis
      by (simp add: addOrUpdateWord_def Let_def split: sum.splits prod.splits)
  next
    case (Some existingWord)
    with Inr show ?thesis
      by (simp add: addOrUpdateWord_def Let_def split: sum.splits prod.splits)
  qed
qed

lemma addOrUpdateWord_succeeds:
  assumes wf: "wf_table (table st)"
    and "\<not> select_fault env" "\<not> write_fault env"
    and fresh: "new_id env \<notin> set (map word_id (table st))"
    and range: "case frequency_of (table st) (toLowerCase w) of None \<Rightarrow> True | Some f \<Rightarrow> int4 (f + 1)"
  shows "\<exists>r. fst (addOrUpdateWord env w st) = Some r \<and> word r = toLowerCase w \<and>
     frequency r = (case frequency_of (table st) (toLowerCase w) of None \<Rightarrow> 1 | Some f \<Rightarrow> f + 1) \<and>
     row_of (table (snd (addOrUpdateWord env w st))) (toLowerCase w) = Some r"
proof (cases "row_of (table st) (toLowerCase w)")
  case None
  define r where "r = \<lparr>word_id = new_id env, word = toLowerCase w, frequency = 1,
      created_at = db_now env, pronunciation = None, pronunciations = None, examples = None,
      definitions = None, last_fetched_at = None\<rparr>"
  have sel: "select_eq_word_maybeSingle (select_fault env) (toLowerCase w) (table st) = Inr None"
    using select_no_fault [OF wf, of "toLowerCase w"] None assms(2) by simp
  have "toLowerCase w \<notin> set (map word (table st))"
    using None row_of_None by blast
  with fresh assms(3)
  have ins: "insert_single (write_fault env) (new_id env) (db_now env) (toLowerCase w) 1 (table st) =
      Inr (r, table st @ [r])"
    by (simp add: insert_single_def r_def Let_def)
  from insert_result [OF wf ins] have "row_of (table st @ [r]) (toLowerCase w) = Some r"
    by simp
  with sel ins None show ?thesis
    by (simp add: addOrUpdateWord_def Let_def frequency_of_def r_def)
next
  case (Some r)
  let ?p = "\<lparr>set_frequency = Some (frequency r + 1),
              set_pronunciation = None, set_pronunciations = None,
              set_definitions = None, set_examples = None,
              set_last_fetched_at = None\<rparr>"
  have "case set_frequency ?p of None \<Rightarrow> True | Some f \<Rightarrow> int4 f"
    using range Some by (simp add: frequency_of_def)
  from update_no_fault [OF wf Some this] update_by_id_table(2) [OF wf Some refl, of ?p]
    row_of_mem [OF Some] assms(2,3) wf Some
  show ?thesis
    by (simp add: addOrUpdateWord_def Let_def select_no_fault frequency_of_def apply_patch_def)
qed

lemma addOrUpdateWordsConcurrently_wf:
  assumes "wf_table (table st)"
    and "addOrUpdateWordsConcurrently env schedule others ws st = ((success, failed), st')"
  shows "wf_table (table st')"
  using batch_result [OF assms] by (auto simp: batch_inv_def)

lemma update_table:
  "update_eq_id_single fault p i tbl = Inr (data, tbl') \<Longrightarrow>
   tbl' = map (\<lambda>x. if word_id x = i then apply_patch p x else x) tbl"
  by (auto simp: update_eq_id_single_def split: if_splits list.splits)

lemma updateWordDetails_wf:
  assumes "wf_table (table st)"
    and "updateWordDetails fault now wordId details st = (result, st')"
  shows "wf_table (table st')"
proof -
  let ?p = "\<lparr>set_frequency = None,
              set_pronunciation = arg_pronunciation details,
              set_pronunciations = arg_pronunciations details,
              set_definitions = arg_definitions details,
              set_examples = arg_examples details,
              set_last_fetched_at = Some now\<rparr>"
  show ?thesis
  proof (cases "update_eq_id_single fault ?p wordId (table st)")
    case (Inl e)
    with assms show ?thesis
      by (auto simp: updateWordDetails_def Let_def)
  next
    case (Inr res)
    obtain data tbl' where res: "res = (data, tbl')" by (cases res)
    from update_table [OF Inr [unfolded res]] update_by_id_table(1) [OF assms(1)]
    have "wf_table tbl'" by simp
    with assms(2) Inr res show ?thesis
      by (auto simp: updateWordDetails_def Let_def)
  qed
qed
section \<open>Facts about the calls that the store answers\<close>









section \<open>Tokenizer: the claims\<close>

text \<open>
  C4. For every input text the words computed by \<^verbatim>\<open>processWords\<close> are those of the
  specification's algorithm (lowercase, split on whitespace runs, strip every character
  that is not a lowercase Latin letter, discard empty tokens, discard tokens of length 1),
  and the input \<^verbatim>\<open>Hello, World! 123 a an\<close> tokenizes to exactly hello, world, an.
\<close>

theorem C4_tokenizer:
  "processWords_words t = tokenize_spec t \<and>
   processWords_words ''Hello, World! 123 a an'' = [''hello'', ''world'', ''an'']"
proof
  have strip: "keep_letters = filter (\<lambda>c. c \<in> set ''abcdefghijklmnopqrstuvwxyz'')"
    unfolding keep_letters_def isLowerLatin_alphabet [abs_def] ..
  have "processWords_words t =
        filter (\<lambda>w. length w \<ge> 2)
          (filter (\<lambda>w. length w > 0)
             (map keep_letters (split_whitespace (toLowerCase t))))"
    unfolding processWords_words_def filter_map_keep_letters ..
  then show "processWords_words t = tokenize_spec t"
    unfolding tokenize_spec_def filter_length_two strip [symmetric] .
next
  show "processWords_words ''Hello, World! 123 a an'' = [''hello'', ''world'', ''an'']"
    by code_simp
qed

section \<open>Definition fetcher: the claims\<close>

text \<open>
  C3 (as amended). The single-word fetch has two outcomes, not three. A successful
  response (status 200 to 299 whose body is a non-empty array with a first entry that has
  meanings) gives a Details value. A 404 response gives \<^verbatim>\<open>null\<close> without any error being
  thrown, even inside the function. Every other non-success status throws inside the
  function, is caught there, and gives the same \<^verbatim>\<open>null\<close>: the caller cannot tell it from
  not-found. And \<^verbatim>\<open>null\<close> is the result in every case but that of a successful response:
  also for a network error, for a body that is not JSON, for a \<^verbatim>\<open>null\<close> or empty body and
  for a first entry without meanings.
\<close>

theorem C3_fetch_outcomes:
  "(fetch (toLowerCase w) = Response status (JsonArray (wordData # others)) \<and>
      response_ok status \<and> r_meanings wordData = Some meanings \<longrightarrow>
      (\<exists>details. fetchWordDetails fetch w = Some details)) \<and>
   (fetch (toLowerCase w) = Response 404 body \<longrightarrow>
      fetchWordDetails_try fetch w = Inr None \<and> fetchWordDetails fetch w = None) \<and>
   (fetch (toLowerCase w) = Response status body \<and> \<not> response_ok status \<and> status \<noteq> 404 \<longrightarrow>
      fetchWordDetails_try fetch w = Inl (ApiError status) \<and>
      fetchWordDetails fetch w = None) \<and>
   ((fetchWordDetails fetch w = None) =
      (\<nexists>s entry rest ms.
          fetch (toLowerCase w) = Response s (JsonArray (entry # rest)) \<and>
          response_ok s \<and> r_meanings entry = Some ms)) \<and>
   (fetch (toLowerCase w) = NetworkError \<longrightarrow> fetchWordDetails fetch w = None) \<and>
   (fetch (toLowerCase w) = Response status NotJson \<longrightarrow> fetchWordDetails fetch w = None) \<and>
   (fetch (toLowerCase w) = Response status JsonNull \<longrightarrow> fetchWordDetails fetch w = None) \<and>
   (fetch (toLowerCase w) = Response status (JsonArray []) \<longrightarrow>
      fetchWordDetails fetch w = None) \<and>
   (fetch (toLowerCase w) = Response status (JsonArray (wordData # others)) \<and>
      r_meanings wordData = None \<longrightarrow> fetchWordDetails fetch w = None)"
proof -
  have success: "\<exists>details. fetchWordDetails fetch w = Some details"
    if "fetch (toLowerCase w) = Response status (JsonArray (wordData # others)) \<and>
      response_ok status \<and> r_meanings wordData = Some meanings"
  proof -
    from that obtain details where "fetchWordDetails_try fetch w = Inr (Some details)"
      using fetchWordDetails_try_success by blast
    then show ?thesis
      by (simp add: fetchWordDetails_def)
  qed
  have not_found: "fetchWordDetails_try fetch w = Inr None \<and> fetchWordDetails fetch w = None"
    if "fetch (toLowerCase w) = Response 404 body"
  proof -
    from that have "fetchWordDetails_try fetch w = Inr None"
      using fetchWordDetails_try_cases(2) [of fetch w 404 body] not_ok_404 by simp
    then show ?thesis
      by (simp add: fetchWordDetails_def)
  qed
  have failure: "fetchWordDetails_try fetch w = Inl (ApiError status) \<and>
      fetchWordDetails fetch w = None"
    if "fetch (toLowerCase w) = Response status body \<and> \<not> response_ok status \<and> status \<noteq> 404"
  proof -
    from that have "fetchWordDetails_try fetch w = Inl (ApiError status)"
      using fetchWordDetails_try_cases(2) [of fetch w status body] by simp
    then show ?thesis
      by (simp add: fetchWordDetails_def)
  qed
  have null: "(fetchWordDetails fetch w = None) =
      (\<nexists>s entry rest ms.
          fetch (toLowerCase w) = Response s (JsonArray (entry # rest)) \<and>
          response_ok s \<and> r_meanings entry = Some ms)"
    by (auto simp: fetchWordDetails_def fetchWordDetails_try_def Let_def
        split: http_response.splits json_body.splits list.splits option.splits prod.splits
          if_splits)
  have network: "fetchWordDetails fetch w = None" if "fetch (toLowerCase w) = NetworkError"
    using that by (simp add: null)
  have not_json: "fetchWordDetails fetch w = None"
    if "fetch (toLowerCase w) = Response status NotJson"
    using that by (simp add: null)
  have json_null: "fetchWordDetails fetch w = None"
    if "fetch (toLowerCase w) = Response status JsonNull"
    using that by (simp add: null)
  have empty: "fetchWordDetails fetch w = None"
    if "fetch (toLowerCase w) = Response status (JsonArray [])"
    using that by (simp add: null)
  have no_meanings: "fetchWordDetails fetch w = None"
    if "fetch (toLowerCase w) = Response status (JsonArray (wordData # others)) \<and>
      r_meanings wordData = None"
    using that by (simp add: null)
  from success not_found failure null network not_json json_null empty no_meanings
  show ?thesis
    by (intro conjI impI; blast)
qed

theorem C3_fetch_outcomes_witness:
  "(\<exists>details. fetchWordDetails (service_ok entry_4x4) ''Run'' = Some details) \<and>
   fetchWordDetails_try service_404 ''Run'' = Inr None \<and>
   fetchWordDetails service_404 ''Run'' = None \<and>
   fetchWordDetails_try service_500 ''Run'' = Inl (ApiError 500) \<and>
   fetchWordDetails service_500 ''Run'' = None \<and>
   fetchWordDetails service_down ''Run'' = None \<and>
   fetchWordDetails service_not_json ''Run'' = None \<and>
   fetchWordDetails service_null ''Run'' = None \<and>
   fetchWordDetails service_empty ''Run'' = None \<and>
   fetchWordDetails (service_ok entry_no_meanings) ''Run'' = None \<and>
   map (\<lambda>fetch. fetchWordDetails fetch ''Run'')
     [service_404, service_500, service_down, service_not_json, service_null, service_empty,
      service_ok entry_no_meanings] = replicate 7 None"
proof -
  have ok: "service_ok entry_4x4 (toLowerCase ''Run'') =
        Response 200 (JsonArray (entry_4x4 # [])) \<and>
      response_ok 200 \<and> r_meanings entry_4x4 = Some (the (r_meanings entry_4x4))"
    by (simp add: service_ok_def response_ok_def entry_4x4_def)
  have nf: "service_404 (toLowerCase ''Run'') = Response 404 JsonNull"
    by (simp add: service_404_def)
  have err: "service_500 (toLowerCase ''Run'') = Response 500 JsonNull \<and>
      \<not> response_ok 500 \<and> (500::nat) \<noteq> 404"
    by (simp add: service_500_def response_ok_def)
  have down: "service_down (toLowerCase ''Run'') = NetworkError"
    by (simp add: service_down_def)
  have not_json: "service_not_json (toLowerCase ''Run'') = Response 200 NotJson"
    by (simp add: service_not_json_def)
  have null: "service_null (toLowerCase ''Run'') = Response 200 JsonNull"
    by (simp add: service_null_def)
  have empty: "service_empty (toLowerCase ''Run'') = Response 200 (JsonArray [])"
    by (simp add: service_empty_def)
  have bare: "service_ok entry_no_meanings (toLowerCase ''Run'') =
        Response 200 (JsonArray (entry_no_meanings # [])) \<and>
      r_meanings entry_no_meanings = None"
    by (simp add: service_ok_def entry_no_meanings_def)
  note inst = C3_fetch_outcomes [where w = "''Run''" and meanings = "the (r_meanings entry_4x4)"]
  have 1: "\<exists>details. fetchWordDetails (service_ok entry_4x4) ''Run'' = Some details"
    using ok inst [of "service_ok entry_4x4" 200 entry_4x4 "[]" JsonNull]
    by (elim conjE) (erule mp, intro conjI)
  have 2: "fetchWordDetails_try service_404 ''Run'' = Inr None \<and>
      fetchWordDetails service_404 ''Run'' = None"
    using nf inst [of service_404 500 entry_4x4 "[]" JsonNull]
    by (elim conjE) (erule mp)
  have 3: "fetchWordDetails_try service_500 ''Run'' = Inl (ApiError 500) \<and>
      fetchWordDetails service_500 ''Run'' = None"
    using err inst [of service_500 500 entry_4x4 "[]" JsonNull]
    by (elim conjE) (erule mp, intro conjI)
  have 4: "fetchWordDetails service_down ''Run'' = None"
    using down inst [of service_down 200 entry_4x4 "[]" JsonNull]
    by (elim conjE) (erule mp)
  have 5: "fetchWordDetails service_not_json ''Run'' = None"
    using not_json inst [of service_not_json 200 entry_4x4 "[]" JsonNull]
    by (elim conjE) (erule mp)
  have 6: "fetchWordDetails service_null ''Run'' = None"
    using null inst [of service_null 200 entry_4x4 "[]" JsonNull]
    by (elim conjE) (erule mp)
  have 7: "fetchWordDetails service_empty ''Run'' = None"
    using empty inst [of service_empty 200 entry_4x4 "[]" JsonNull]
    by (elim conjE) (erule mp)
  have 8: "fetchWordDetails (service_ok entry_no_meanings) ''Run'' = None"
    using bare inst [of "service_ok entry_no_meanings" 200 entry_no_meanings "[]" JsonNull]
    by (elim conjE) (erule mp, intro conjI)
  have 9: "map (\<lambda>fetch. fetchWordDetails fetch ''Run'')
     [service_404, service_500, service_down, service_not_json, service_null, service_empty,
      service_ok entry_no_meanings] = replicate 7 None"
    by code_simp
  from 1 2 3 4 5 6 7 8 9 show ?thesis
    by (elim conjE) (intro conjI)
qed

text \<open>
  Counterexample to C3 as stated: a response with status 500 and a response with status
  404 give the caller the same value, \<^verbatim>\<open>null\<close>, so the failure is not a distinct outcome.
\<close>

theorem C3_counterexample:
  "fetchWordDetails service_500 ''cat'' = None \<and> fetchWordDetails service_404 ''cat'' = None"
  by (simp add: fetchWordDetails_def fetchWordDetails_try_def service_500_def service_404_def
      response_ok_def)

text \<open>
  C5. For every successful response the fetch returns Details whose definition list is
  the first 5 of the list made of the first 3 definitions of each meaning group, in the
  order of the groups: at most 3 per group before the cap, at most 5 in all.
\<close>

theorem C5_definitions_capped:
  assumes "fetch (toLowerCase w) = Response status (JsonArray (wordData # others))"
    and "response_ok status"
    and "r_meanings wordData = Some meanings"
  shows "\<exists>details. fetchWordDetails fetch w = Some details \<and>
     d_definitions details = take 5 (concat (map first_three meanings)) \<and>
     length (d_definitions details) \<le> 5 \<and>
     (\<forall>m. length (first_three m) \<le> 3 \<and>
          first_three m =
            map (\<lambda>d. \<lparr>partOfSpeech = m_partOfSpeech m, definition_text = def_definition d\<rparr>)
              (take 3 (m_definitions m)))"
proof -
  have "\<exists>details. fetchWordDetails fetch w = Some details \<and>
      d_definitions details = take 5 (fst (meanings_forEach meanings ([], [])))"
    using assms
    by (simp add: fetchWordDetails_def fetchWordDetails_try_def Let_def split: prod.split)
  then obtain details where "fetchWordDetails fetch w = Some details"
    and "d_definitions details = take 5 (concat (map first_three meanings))"
    by (auto simp: meanings_forEach_fst)
  moreover have "length (first_three m) \<le> 3" for m
    by (simp add: first_three_def)
  ultimately show ?thesis
    by (auto simp: first_three_def)
qed

text \<open>
  The response with 4 meanings of 4 definitions each gives exactly 5 definitions: the
  first 3 of the first group and the first 2 of the second.
\<close>

theorem C5_definitions_capped_witness:
  "\<exists>details. fetchWordDetails (service_ok entry_4x4) ''Run'' = Some details \<and>
     d_definitions details =
       [\<lparr>partOfSpeech = ''noun'', definition_text = ''n1''\<rparr>,
        \<lparr>partOfSpeech = ''noun'', definition_text = ''n2''\<rparr>,
        \<lparr>partOfSpeech = ''noun'', definition_text = ''n3''\<rparr>,
        \<lparr>partOfSpeech = ''verb'', definition_text = ''v1''\<rparr>,
        \<lparr>partOfSpeech = ''verb'', definition_text = ''v2''\<rparr>]"
proof -
  have h1: "service_ok entry_4x4 (toLowerCase ''Run'') = Response 200 (JsonArray (entry_4x4 # []))"
    by (simp add: service_ok_def)
  have h2: "response_ok 200"
    by (simp add: response_ok_def)
  have h3: "r_meanings entry_4x4 = Some
        [\<lparr>m_partOfSpeech = ''noun'', m_definitions = four_definitions ''n''\<rparr>,
         \<lparr>m_partOfSpeech = ''verb'', m_definitions = four_definitions ''v''\<rparr>,
         \<lparr>m_partOfSpeech = ''adjective'', m_definitions = four_definitions ''a''\<rparr>,
         \<lparr>m_partOfSpeech = ''adverb'', m_definitions = four_definitions ''d''\<rparr>]"
    by (simp add: entry_4x4_def)
  show ?thesis
    using C5_definitions_capped [of "service_ok entry_4x4" "''Run''", OF h1 h2 h3]
    by (auto simp: first_three_def four_definitions_def)
qed

text \<open>
  C6. For every successful response the primary pronunciation is the text of the first
  entry of the phonetics list that has text, and then the pronunciation variants are all
  the entries with text, in order, each with its audio URL when it has one; when no entry
  has text it is the top-level phonetic field when that is there (and not empty); and
  otherwise it is the word between two slashes. In the last two cases the one variant is
  the primary pronunciation.
\<close>

theorem C6_pronunciation_fallback:
  assumes "fetch (toLowerCase w) = Response status (JsonArray (wordData # others))"
    and "response_ok status"
    and "r_meanings wordData = Some meanings"
  shows "\<exists>details. fetchWordDetails fetch w = Some details \<and>
     d_pronunciation details =
       (case filter has_text (phonetics_list wordData) of
          p # _ \<Rightarrow> pron_text (pronunciation_of p)
        | [] \<Rightarrow> (case r_phonetic wordData of
                    None \<Rightarrow> placeholder w
                  | Some t \<Rightarrow> if t \<noteq> [] then t else placeholder w)) \<and>
     d_pronunciations details =
       (case filter has_text (phonetics_list wordData) of
          [] \<Rightarrow> [\<lparr>pron_text = d_pronunciation details, pron_audio = None\<rparr>]
        | p # ps \<Rightarrow> map pronunciation_of (p # ps))"
proof -
  define withText where "withText = filter has_text (phonetics_list wordData)"
  have loop: "(case r_phonetics wordData of None \<Rightarrow> ([], [])
        | Some phonetics \<Rightarrow> if length phonetics > 0 then phonetics_forEach phonetics ([], [])
                            else ([], [])) =
      (map pronunciation_of withText,
       case withText of [] \<Rightarrow> [] | p # _ \<Rightarrow> pron_text (pronunciation_of p))"
    by (auto simp: withText_def phonetics_list_def phonetics_forEach_eq split: option.splits)
  show ?thesis
  proof (cases withText)
    case Nil
    with assms loop show ?thesis
      unfolding withText_def [symmetric]
      by (auto simp: fetchWordDetails_def fetchWordDetails_try_def Let_def placeholder_def
          split: prod.split option.splits)
  next
    case (Cons p ps)
    then have "has_text p"
      by (metis withText_def filter_eq_ConsD)
    then have "pron_text (pronunciation_of p) \<noteq> []"
      by (rule pron_text_has_text)
    with assms loop Cons show ?thesis
      unfolding withText_def [symmetric]
      by (auto simp: fetchWordDetails_def fetchWordDetails_try_def Let_def placeholder_def
          split: prod.split option.splits)
  qed
qed

theorem C6_pronunciation_fallback_witness:
  "(\<exists>details. fetchWordDetails (service_ok entry_4x4) ''Run'' = Some details \<and>
      d_pronunciation details = ''/run/'' \<and>
      d_pronunciations details =
        [\<lparr>pron_text = ''/run/'', pron_audio = None\<rparr>,
         \<lparr>pron_text = ''/ran/'', pron_audio = Some ''b.mp3''\<rparr>]) \<and>
   (\<exists>details. fetchWordDetails (service_ok entry_top_level) ''Cat'' = Some details \<and>
      d_pronunciation details = ''/kat/'' \<and>
      d_pronunciations details = [\<lparr>pron_text = ''/kat/'', pron_audio = None\<rparr>]) \<and>
   (\<exists>details. fetchWordDetails (service_ok entry_bare) ''Cat'' = Some details \<and>
      d_pronunciation details = ''/Cat/'' \<and>
      d_pronunciations details = [\<lparr>pron_text = ''/Cat/'', pron_audio = None\<rparr>])"
proof -
  have ok: "response_ok 200"
    by (simp add: response_ok_def)
  have a1: "service_ok entry_4x4 (toLowerCase ''Run'') = Response 200 (JsonArray (entry_4x4 # []))"
    and a2: "service_ok entry_top_level (toLowerCase ''Cat'') =
        Response 200 (JsonArray (entry_top_level # []))"
    and a3: "service_ok entry_bare (toLowerCase ''Cat'') = Response 200 (JsonArray (entry_bare # []))"
    by (simp_all add: service_ok_def)
  have m1: "r_meanings entry_4x4 = Some (the (r_meanings entry_4x4))"
    and m2: "r_meanings entry_top_level = Some []"
    and m3: "r_meanings entry_bare = Some []"
    by (simp_all add: entry_4x4_def entry_top_level_def entry_bare_def)
  have blank: "trim '' '' = []" and url: "trim ''b.mp3'' \<noteq> []"
    by (simp_all add: trim_def isSpace_def)
  show ?thesis
    using C6_pronunciation_fallback [of "service_ok entry_4x4" "''Run''", OF a1 ok m1]
      C6_pronunciation_fallback [of "service_ok entry_top_level" "''Cat''", OF a2 ok m2]
      C6_pronunciation_fallback [of "service_ok entry_bare" "''Cat''", OF a3 ok m3] blank url
    by (auto simp: entry_4x4_def entry_top_level_def entry_bare_def phonetics_list_def
        has_text_def pronunciation_of_def audio_url_def placeholder_def)
qed

text \<open>
  C7 (as amended). The staleness check is true when there is no last-fetch timestamp and
  false when the timestamp cannot be read. For a timestamp it is true exactly when the
  elapsed hours, as the code computes them (the difference of the two times and its
  quotient by 3600000, each rounded to a double), exceed the maximum age, which is 168 when
  the caller gives none. When the maximum age is a whole number of hours and the two times
  are less than \<open>2 ^ 53\<close> milliseconds apart, that is exactly when the elapsed time exceeds
  the maximum age. So the check is true for no timestamp, false for a timestamp equal to
  the clock, and true for a timestamp 169 hours before the clock. For a timestamp and a
  maximum age that is not a finite number, the check is false when the maximum age is
  \<^verbatim>\<open>NaN\<close> or \<^verbatim>\<open>Infinity\<close> and true when it is \<^verbatim>\<open>-Infinity\<close>.
\<close>

theorem C7_staleness:
  "shouldUpdateWordDetails now NoDate maxAge = True \<and>
   shouldUpdateWordDetails now InvalidDate maxAge = False \<and>
   shouldUpdateWordDetails now (DateMs t) (Some (Num h)) =
     (h < fl (fl (of_int now - of_int t) / 3600000)) \<and>
   (\<bar>now - t\<bar> < 2 ^ 53 \<and> \<bar>m\<bar> < 2 ^ 53 \<longrightarrow>
      shouldUpdateWordDetails now (DateMs t) (Some (Num (of_int m))) =
        (m * 3600000 < now - t)) \<and>
   (\<bar>now - t\<bar> < 2 ^ 53 \<longrightarrow>
      shouldUpdateWordDetails now (DateMs t) None = (168 * 3600000 < now - t)) \<and>
   shouldUpdateWordDetails now NoDate (Some (Num 168)) \<and>
   \<not> shouldUpdateWordDetails now (DateMs now) (Some (Num 168)) \<and>
   shouldUpdateWordDetails now (DateMs (now - 169 * 3600000)) (Some (Num 168)) \<and>
   \<not> shouldUpdateWordDetails now (DateMs t) (Some NaN) \<and>
   \<not> shouldUpdateWordDetails now (DateMs t) (Some Infinity) \<and>
   shouldUpdateWordDetails now (DateMs t) (Some MinusInfinity)"
proof -
  have general: "shouldUpdateWordDetails now (DateMs t) (Some (Num h)) =
     (h < fl (fl (of_int now - of_int t) / 3600000))" for now t h
    by (simp add: shouldUpdateWordDetails_def double_div_def double_sub_def)
  have whole: "shouldUpdateWordDetails now (DateMs t) (Some (Num (of_int m))) =
      (m * 3600000 < now - t)" if "\<bar>now - t\<bar> < 2 ^ 53" "\<bar>m\<bar> < 2 ^ 53" for now t m
    using double_hours [OF that] by (simp add: general)
  have default: "shouldUpdateWordDetails now (DateMs t) None =
      shouldUpdateWordDetails now (DateMs t) (Some (Num (of_int 168)))" for now t
    by (simp add: shouldUpdateWordDetails_def)
  have "shouldUpdateWordDetails now (DateMs t) None = (168 * 3600000 < now - t)"
    if "\<bar>now - t\<bar> < 2 ^ 53"
    unfolding default using whole [OF that, of 168] by simp
  moreover have "\<not> shouldUpdateWordDetails now (DateMs now) (Some (Num 168))"
    using whole [of now now 168] by simp
  moreover have "shouldUpdateWordDetails now (DateMs (now - 169 * 3600000)) (Some (Num 168))"
    using whole [of now "now - 169 * 3600000" 168] by simp
  ultimately show ?thesis
    using general [of now t h] whole [of now t m]
    by (simp add: shouldUpdateWordDetails_def)
qed

text \<open>
  Two hours and a half after the fetch, with a maximum age of two hours and with the
  default one.
\<close>

theorem C7_staleness_witness:
  "\<bar>1700009000000 - 1700000000000\<bar> < (2::int) ^ 53 \<and> \<bar>2\<bar> < (2::int) ^ 53 \<and>
   shouldUpdateWordDetails 1700009000000 (DateMs 1700000000000) (Some (Num 2)) \<and>
   \<not> shouldUpdateWordDetails 1700009000000 (DateMs 1700000000000) None"
proof -
  have near: "\<bar>1700009000000 - 1700000000000\<bar> < (2::int) ^ 53 \<and> \<bar>2\<bar> < (2::int) ^ 53"
    by simp
  show ?thesis
    using near C7_staleness [of 1700009000000 "Some NaN" 1700000000000 0 2]
    by simp
qed

text \<open>
  Counterexample to C7 as stated: 1080000 milliseconds after the fetch the elapsed hours
  are 0.3, which exceeds the maximum age \<open>double_0_3\<close>, a double; but the quotient
  rounds to that double, and the check is false.
\<close>

theorem C7_counterexample:
  "fl double_0_3 = double_0_3 \<and>
   double_0_3 < of_int (1080000 - 0) / 3600000 \<and>
   \<not> shouldUpdateWordDetails 1080000 (DateMs 0) (Some (Num double_0_3))"
  by code_simp

text \<open>
  C8. The single-word fetch never throws to its caller: its result is the result of the
  body of its \<^verbatim>\<open>try\<close> block with every thrown error turned into \<^verbatim>\<open>null\<close>. The body throws
  exactly on a network error, on a non-success status other than 404, on a body that is
  not JSON, and on a first entry without meanings; and the function returns \<^verbatim>\<open>null\<close> in
  every case but that of a success status with a non-empty array whose first entry has
  meanings, so \<^verbatim>\<open>null\<close> stands for not-found and for every failure alike.
\<close>

theorem C8_fetch_never_throws:
  "fetchWordDetails fetch w =
     (case fetchWordDetails_try fetch w of Inl e \<Rightarrow> None | Inr r \<Rightarrow> r) \<and>
   ((\<exists>e. fetchWordDetails_try fetch w = Inl e) =
      (fetch (toLowerCase w) = NetworkError \<or>
       (\<exists>status body. fetch (toLowerCase w) = Response status body \<and>
          \<not> response_ok status \<and> status \<noteq> 404) \<or>
       (\<exists>status. fetch (toLowerCase w) = Response status NotJson \<and> response_ok status) \<or>
       (\<exists>status wordData others.
          fetch (toLowerCase w) = Response status (JsonArray (wordData # others)) \<and>
          response_ok status \<and> r_meanings wordData = None))) \<and>
   ((fetchWordDetails fetch w = None) =
      (\<nexists>status wordData others meanings.
          fetch (toLowerCase w) = Response status (JsonArray (wordData # others)) \<and>
          response_ok status \<and> r_meanings wordData = Some meanings))"
proof (intro conjI)
  show "fetchWordDetails fetch w =
     (case fetchWordDetails_try fetch w of Inl e \<Rightarrow> None | Inr r \<Rightarrow> r)"
    by (simp add: fetchWordDetails_def)
next
  show "(\<exists>e. fetchWordDetails_try fetch w = Inl e) =
      (fetch (toLowerCase w) = NetworkError \<or>
       (\<exists>status body. fetch (toLowerCase w) = Response status body \<and>
          \<not> response_ok status \<and> status \<noteq> 404) \<or>
       (\<exists>status. fetch (toLowerCase w) = Response status NotJson \<and> response_ok status) \<or>
       (\<exists>status wordData others.
          fetch (toLowerCase w) = Response status (JsonArray (wordData # others)) \<and>
          response_ok status \<and> r_meanings wordData = None))"
    by (auto simp: fetchWordDetails_try_def Let_def
        split: http_response.splits json_body.splits list.splits option.splits prod.splits
          if_splits)
next
  show "(fetchWordDetails fetch w = None) =
      (\<nexists>status wordData others meanings.
          fetch (toLowerCase w) = Response status (JsonArray (wordData # others)) \<and>
          response_ok status \<and> r_meanings wordData = Some meanings)"
    by (auto simp: fetchWordDetails_def fetchWordDetails_try_def Let_def
        split: http_response.splits json_body.splits list.splits option.splits prod.splits
          if_splits)
qed

section \<open>Word store and ingestion: the claims\<close>




text \<open>
  C2 (as amended). For every call of \<^verbatim>\<open>updateWordDetails\<close> on a well-formed table: when a
  record has the identifier and the request does not fail, each of the four detail fields
  of the record is afterwards the payload's value when the payload has the field, and the
  stored value when the payload leaves it out; the last-fetch timestamp is the clock; the
  identifier, the word, the frequency and the creation time are unchanged, and so is every
  other record; the updated record is returned. When no record has the identifier the call
  returns \<^verbatim>\<open>null\<close>, its one failure value, and the table is unchanged, as it is when the
  request fails.
\<close>

theorem C2_updateWordDetails:
  assumes "wf_table (table st)"
    and "updateWordDetails fault now wordId details st = (result, st')"
  shows "case row_of_id (table st) wordId of
           None \<Rightarrow> result = None \<and> table st' = table st
         | Some old \<Rightarrow>
             if fault then result = None \<and> table st' = table st
             else (\<exists>new.
               result = Some new \<and>
               table st' = map (\<lambda>r. if r = old then new else r) (table st) \<and>
               pronunciation new =
                 (case arg_pronunciation details of None \<Rightarrow> pronunciation old | Some v \<Rightarrow> Some v) \<and>
               pronunciations new =
                 (case arg_pronunciations details of None \<Rightarrow> pronunciations old
                  | Some v \<Rightarrow> Some v) \<and>
               definitions new =
                 (case arg_definitions details of None \<Rightarrow> definitions old | Some v \<Rightarrow> Some v) \<and>
               examples new =
                 (case arg_examples details of None \<Rightarrow> examples old | Some v \<Rightarrow> Some v) \<and>
               last_fetched_at new = Some now \<and>
               word_id new = word_id old \<and> word new = word old \<and>
               frequency new = frequency old \<and> created_at new = created_at old)"
proof (cases "row_of_id (table st) wordId")
  case None
  then have "filter (\<lambda>r. word_id r = wordId) (table st) = []"
    using assms(1) by (simp add: filter_key_unique wf_table_def row_of_id_def)
  with assms(2) None show ?thesis
    by (auto simp: updateWordDetails_def update_eq_id_single_def Let_def split: if_splits)
next
  case (Some old)
  let ?p = "\<lparr>set_frequency = None,
              set_pronunciation = arg_pronunciation details,
              set_pronunciations = arg_pronunciations details,
              set_definitions = arg_definitions details,
              set_examples = arg_examples details,
              set_last_fetched_at = Some now\<rparr>"
  have one: "filter (\<lambda>r. word_id r = wordId) (table st) = [old]"
    using assms(1) Some by (simp add: filter_key_unique wf_table_def row_of_id_def)
  have old: "old \<in> set (table st)" "word_id old = wordId"
    using Some find_key_mem [of word_id wordId "table st" old] by (simp_all add: row_of_id_def)
  have same: "(word_id r = wordId) = (r = old)" if "r \<in> set (table st)" for r
  proof -
    have "inj_on word_id (set (table st))"
      using assms(1) by (simp add: wf_table_def distinct_map)
    with that old show ?thesis
      by (auto dest: inj_onD)
  qed
  have tbl: "map (\<lambda>r. if word_id r = wordId then apply_patch ?p r else r) (table st) =
      map (\<lambda>r. if r = old then apply_patch ?p old else r) (table st)"
    by (rule map_cong) (auto simp: same)
  show ?thesis
  proof (cases fault)
    case True
    with assms(2) Some show ?thesis
      by (auto simp: updateWordDetails_def update_eq_id_single_def Let_def)
  next
    case False
    with assms(2) one have "result = Some (apply_patch ?p old)"
      and "table st' = map (\<lambda>r. if word_id r = wordId then apply_patch ?p r else r) (table st)"
      by (auto simp: updateWordDetails_def update_eq_id_single_def Let_def)
    with False Some tbl show ?thesis
      by (simp add: apply_patch_def)
  qed
qed

theorem C2_updateWordDetails_witness:
  "wf_table (table cat_store) \<and>
   row_of_id (table cat_store) 1 = Some cat_row \<and>
   row_of_id (table cat_store) 2 = None \<and>
   updateWordDetails False 9000 1 examples_only cat_store =
     (Some (cat_row\<lparr>examples := Some [''The cat sat.''], last_fetched_at := Some 9000\<rparr>),
      \<lparr>table = [cat_row\<lparr>examples := Some [''The cat sat.''], last_fetched_at := Some 9000\<rparr>],
       requests = [Update_details 1]\<rparr>) \<and>
   fst (updateWordDetails False 9000 2 examples_only cat_store) = None \<and>
   table (snd (updateWordDetails False 9000 2 examples_only cat_store)) = table cat_store"
proof -
  have wf: "wf_table (table cat_store)"
    by code_simp
  have rows: "row_of_id (table cat_store) 1 = Some cat_row" "row_of_id (table cat_store) 2 = None"
    by code_simp+
  have run: "updateWordDetails False 9000 1 examples_only cat_store =
     (Some (cat_row\<lparr>examples := Some [''The cat sat.''], last_fetched_at := Some 9000\<rparr>),
      \<lparr>table = [cat_row\<lparr>examples := Some [''The cat sat.''], last_fetched_at := Some 9000\<rparr>],
       requests = [Update_details 1]\<rparr>)"
    by code_simp
  have none: "updateWordDetails False 9000 2 examples_only cat_store =
     (fst (updateWordDetails False 9000 2 examples_only cat_store),
      snd (updateWordDetails False 9000 2 examples_only cat_store))"
    by simp
  show ?thesis
    using C2_updateWordDetails [OF wf run] C2_updateWordDetails [OF wf none] wf rows run
    by simp
qed

text \<open>
  Counterexample to C2 as stated: the record of cat has a pronunciation and definitions,
  and the payload has examples only. After the call the record still has its pronunciation
  and its definitions, where the claim wants both absent, as they are in the payload.
\<close>

theorem C2_counterexample:
  "arg_pronunciation examples_only = None \<and> arg_definitions examples_only = None \<and>
   map_option pronunciation (fst (updateWordDetails False 9000 1 examples_only cat_store)) =
     Some (Some ''/kat/'') \<and>
   map_option definitions (fst (updateWordDetails False 9000 1 examples_only cat_store)) =
     Some (Some [\<lparr>partOfSpeech = ''noun'', definition_text = ''a small animal''\<rparr>]) \<and>
   map pronunciation (table (snd (updateWordDetails False 9000 1 examples_only cat_store))) =
     [Some ''/kat/'']"
  by code_simp

text \<open>
  C9. For every input word list, on a well-formed table, for every order in which the
  store serves the requests and whatever other calls are in flight, the words of the
  records in \<^verbatim>\<open>success\<close> followed by the words in \<^verbatim>\<open>failed\<close> have no repetition, and they
  are exactly the lowercased input words: each distinct lowercased input word is in exactly
  one of the two lists, once, and no other word is in either.
\<close>

theorem C9_batch_partition:
  assumes "wf_table (table st)"
    and "addOrUpdateWordsConcurrently env schedule others ws st = ((success, failed), st')"
  shows "distinct (map word success @ failed) \<and>
         set (map word success @ failed) = set (map toLowerCase ws)"
proof -
  let ?us = "spread_Set (map toLowerCase ws)"
  from batch_result [OF assms] obtain tasks where
    success: "map word success =
       map ((!) ?us) (filter (\<lambda>i. task_result (tasks i) \<noteq> None) [0..<length ?us])"
    and failed: "failed =
       map ((!) ?us) (filter (\<lambda>i. task_result (tasks i) = None) [0..<length ?us])"
    by blast
  have "distinct ?us"
    by (rule distinct_spread_Set)
  from partition_nth [OF this, of "\<lambda>i. task_result (tasks i) \<noteq> None"] show ?thesis
    unfolding success failed by simp
qed

theorem C9_batch_partition_witness:
  "wf_table (table cat_store) \<and>
   addOrUpdateWordsConcurrently env_second_down [1, 0] [] [''Cat'', ''dog'', ''CAT'']
     cat_store =
     (([cat_row\<lparr>frequency := 4\<rparr>], [''dog'']),
      \<lparr>table = [cat_row\<lparr>frequency := 4\<rparr>],
       requests = [Select_word ''dog'', Select_word ''cat'', Update_frequency 1 4]\<rparr>) \<and>
   distinct (map word [cat_row\<lparr>frequency := 4\<rparr>] @ [''dog'']) \<and>
   set (map word [cat_row\<lparr>frequency := 4\<rparr>] @ [''dog'']) =
     set (map toLowerCase [''Cat'', ''dog'', ''CAT''])"
proof -
  have wf: "wf_table (table cat_store)"
    by code_simp
  have run: "addOrUpdateWordsConcurrently env_second_down [1, 0] []
     [''Cat'', ''dog'', ''CAT''] cat_store =
     (([cat_row\<lparr>frequency := 4\<rparr>], [''dog'']),
      \<lparr>table = [cat_row\<lparr>frequency := 4\<rparr>],
       requests = [Select_word ''dog'', Select_word ''cat'', Update_frequency 1 4]\<rparr>)"
    by code_simp
  show ?thesis
    using C9_batch_partition [OF wf run] wf run by simp
qed

text \<open>
  C10. When the text yields no valid word, \<^verbatim>\<open>processWords\<close> leaves the store as it is, the
  table and the list of requests alike, so no store operation is issued and no record is
  created or incremented; it does not call \<^verbatim>\<open>onWordsAdded\<close>; and it produces no outcome:
  for a blank text the state of the component is untouched, and otherwise the lists of
  processed and failed words are empty.
\<close>

theorem C10_no_words_no_store_operation:
  assumes "processWords_words (inputText ui) = []"
  shows "processWords env schedule others (ui, refreshKey, st) =
     (if trim (inputText ui) = [] then ui
      else ui\<lparr>isProcessing := False, processedWords := [], failedWords := []\<rparr>,
      refreshKey, st)"
  using assms by (simp add: processWords_def Let_def)

theorem C10_no_words_no_store_operation_witness:
  "processWords_words (inputText (ui_of '' 12 a ?! '')) = [] \<and>
   processWords env_ok [] [] (ui_of '' 12 a ?! '', 7, cat_store) =
     (\<lparr>inputText = '' 12 a ?! '', isProcessing = False, processedWords = [],
       failedWords = []\<rparr>, 7, cat_store)"
proof -
  have none: "processWords_words (inputText (ui_of '' 12 a ?! '')) = []"
    by code_simp
  have nonblank: "trim (inputText (ui_of '' 12 a ?! '')) \<noteq> []"
    by code_simp
  show ?thesis
    using C10_no_words_no_store_operation [OF none, of env_ok "[]" "[]" 7 cat_store] none nonblank
    by (simp add: ui_of_def)
qed

end
